theory Spec2Isabelle
  imports Complex_Main "HOL-Library.Word"
begin

section \<open>JavaScript values\<close>

text \<open>
  A JavaScript string is the list of its UTF-16 code units, so that \<open>length\<close> is the
  \<^verbatim>\<open>.length\<close> of the source. \<open>lit\<close> embeds an ASCII literal of the source.
\<close>

type_synonym jsstring = "16 word list"

definition lit :: "string \<Rightarrow> jsstring" where
  "lit s = map (\<lambda>c. of_nat (of_char c)) s"

text \<open>Decimal rendering of a non-negative integer inside a template literal.\<close>

definition digit :: "nat \<Rightarrow> 16 word" where
  "digit d = of_nat (48 + d)"

function show_nat :: "nat \<Rightarrow> jsstring" where
  "show_nat n = (if n < 10 then [digit n] else show_nat (n div 10) @ [digit (n mod 10)])"
  by pat_completeness auto
termination
  by (relation "measure (\<lambda>n. n)") auto

declare show_nat.simps [simp del]

text \<open>
  The values that \<^verbatim>\<open>JSON.parse\<close> produces, and \<^verbatim>\<open>undefined\<close> (the value of a missing
  property). A number is a finite double, hence a rational (the infinities that a
  literal out of range parses to are left out; they are truthy like any number but 0);
  an object is the list of its own properties.
\<close>

datatype jsval =
    Undefined
  | Null
  | Bool bool
  | Num rat
  | Str jsstring
  | Arr "jsval list"
  | Obj "(jsstring \<times> jsval) list"

text \<open>\<^verbatim>\<open>!!v\<close>: the falsy values are undefined, null, false, 0 and the empty string.\<close>

fun truthy :: "jsval \<Rightarrow> bool" where
  "truthy Undefined = False"
| "truthy Null = False"
| "truthy (Bool b) = b"
| "truthy (Num x) = (x \<noteq> 0)"
| "truthy (Str s) = (s \<noteq> [])"
| "truthy (Arr xs) = True"
| "truthy (Obj kvs) = True"

text \<open>\<^verbatim>\<open>typeof v === 'object'\<close>\<close>

fun typeof_object :: "jsval \<Rightarrow> bool" where
  "typeof_object Null = True"
| "typeof_object (Arr xs) = True"
| "typeof_object (Obj kvs) = True"
| "typeof_object v = False"

text \<open>\<^verbatim>\<open>a || b\<close>\<close>

definition js_or :: "jsval \<Rightarrow> jsval \<Rightarrow> jsval" where
  "js_or a b = (if truthy a then a else b)"

text \<open>
  Errors are their \<^verbatim>\<open>name\<close> and \<^verbatim>\<open>message\<close>. Reading a property of undefined or null
  throws a TypeError, with the message of the V8 engine of Node 18 (the version the
  Dockerfile installs).
\<close>

record js_error =
  err_name :: jsstring
  message :: jsstring

definition new_Error :: "jsstring \<Rightarrow> js_error" where
  "new_Error m = \<lparr>err_name = lit ''Error'', message = m\<rparr>"

definition cannot_read :: "string \<Rightarrow> jsstring \<Rightarrow> js_error" where
  "cannot_read what k =
     \<lparr>err_name = lit ''TypeError'',
      message = lit ''Cannot read properties of '' @ lit what @ lit '' (reading '' @
                [39] @ k @ [39] @ lit '')''\<rparr>"

text \<open>
  \<^verbatim>\<open>v.k\<close> for a key \<open>k\<close> that is no array index and no inherited property (the keys of
  this program: job_type, input_data, messages, max_tokens, choices, message, content),
  and for \<^verbatim>\<open>length\<close>.
\<close>

fun get_prop :: "jsval \<Rightarrow> jsstring \<Rightarrow> js_error + jsval" where
  "get_prop Undefined k = Inl (cannot_read ''undefined'' k)"
| "get_prop Null k = Inl (cannot_read ''null'' k)"
| "get_prop (Obj kvs) k = Inr (case map_of kvs k of None \<Rightarrow> Undefined | Some v \<Rightarrow> v)"
| "get_prop (Str s) k = Inr (if k = lit ''length'' then Num (of_nat (length s)) else Undefined)"
| "get_prop (Arr xs) k = Inr (if k = lit ''length'' then Num (of_nat (length xs)) else Undefined)"
| "get_prop v k = Inr Undefined"

text \<open>\<^verbatim>\<open>v[0]\<close>\<close>

fun get_first :: "jsval \<Rightarrow> js_error + jsval" where
  "get_first Undefined = Inl (cannot_read ''undefined'' (lit ''0''))"
| "get_first Null = Inl (cannot_read ''null'' (lit ''0''))"
| "get_first (Arr xs) = Inr (case xs of [] \<Rightarrow> Undefined | x # _ \<Rightarrow> x)"
| "get_first (Str s) = Inr (case s of [] \<Rightarrow> Undefined | c # _ \<Rightarrow> Str [c])"
| "get_first (Obj kvs) = Inr (case map_of kvs (lit ''0'') of None \<Rightarrow> Undefined | Some v \<Rightarrow> v)"
| "get_first v = Inr Undefined"

text \<open>
  Whether a value can be put into a template literal. The conversion to a string throws
  a TypeError for an object with an own property \<^verbatim>\<open>toString\<close> (no value of JSON can be
  called, and the inherited \<^verbatim>\<open>valueOf\<close> returns the object), and for an array that holds
  such an object, whose elements are joined; null and undefined elements are skipped
  by the join.
\<close>

fun stringifies :: "jsval \<Rightarrow> bool" where
  "stringifies (Obj kvs) = (map_of kvs (lit ''toString'') = None)"
| "stringifies (Arr xs) = (\<forall>x \<in> set xs. stringifies x)"
| "stringifies v = True"

definition cannot_convert :: js_error where
  "cannot_convert =
     \<lparr>err_name = lit ''TypeError'', message = lit ''Cannot convert object to primitive value''\<rparr>"

section \<open>The jobs table (db/schema.sql)\<close>

text \<open>
  One row of \<^verbatim>\<open>jobs\<close>. The CHECK constraint restricts \<^verbatim>\<open>status\<close> to four values. A
  TIMESTAMPTZ is an integer count of microseconds; NULL is \<open>None\<close>. \<^verbatim>\<open>input_data\<close> is
  the JSON value that was stored, as the driver hands it back.
\<close>

datatype job_status = Pending | Processing | Completed | Failed

record job =
  job_id :: nat
  job_type :: jsstring
  status :: job_status
  input_data :: jsval
  result_data :: "jsstring option"
  error :: "jsstring option"
  created_at :: int
  completed_at :: "int option"

text \<open>The table and the sequence behind \<^verbatim>\<open>id SERIAL\<close>.\<close>

record store =
  rows :: "job list"
  next_id :: nat

section \<open>cleanupOldJobs\<close>

text \<open>
  \<^verbatim>\<open>new Date(Date.now() - 6 * 60 * 60 * 1000)\<close>: the clock counts milliseconds, the
  parameter reaches the database as a timestamp, in microseconds.
\<close>

definition sixHoursAgo :: "int \<Rightarrow> int" where
  "sixHoursAgo now_ms = (now_ms - 6 * 60 * 60 * 1000) * 1000"

text \<open>
  The WHERE clause of the DELETE. A comparison with a NULL \<^verbatim>\<open>completed_at\<close> is not
  true, so such a row stays.
\<close>

definition delete_where :: "int \<Rightarrow> job \<Rightarrow> bool" where
  "delete_where cutoff j =
     ((status j = Completed \<or> status j = Failed) \<and>
      (case completed_at j of None \<Rightarrow> False | Some t \<Rightarrow> t < cutoff))"

text \<open>
  The sweep returns nothing; the model returns the table afterwards and the ids of the
  RETURNING clause (the rows deleted). When the query fails the error is logged and
  nothing is deleted.
\<close>

definition cleanupOldJobs :: "bool \<Rightarrow> int \<Rightarrow> store \<Rightarrow> store \<times> nat list" where
  "cleanupOldJobs query_fails now_ms s =
     (if query_fails then (s, [])
      else (s\<lparr>rows := filter (\<lambda>j. \<not> delete_where (sixHoursAgo now_ms) j) (rows s)\<rparr>,
            map job_id (filter (delete_where (sixHoursAgo now_ms)) (rows s))))"

section \<open>POST /api/jobs\<close>

datatype submit_response =
    Created nat job_status int \<comment> \<open>200: job_id, status, created_at\<close>
  | Bad_Request jsstring \<comment> \<open>400 and its error text\<close>
  | Server_Error \<comment> \<open>500, from the catch block\<close>

definition known_job_types :: "jsstring list" where
  "known_job_types = [lit ''prompt1'', lit ''prompt2'', lit ''report_template'']"

text \<open>
  The INSERT: \<^verbatim>\<open>id\<close> from the sequence, \<^verbatim>\<open>created_at\<close> from NOW(), the columns it does
  not name NULL.
\<close>

definition insert_job :: "jsstring \<Rightarrow> jsval \<Rightarrow> int \<Rightarrow> store \<Rightarrow> job \<times> store" where
  "insert_job jt inp now s =
     (let j = \<lparr>job_id = next_id s, job_type = jt, status = Pending, input_data = inp,
               result_data = None, error = None, created_at = now, completed_at = None\<rparr>
      in (j, \<lparr>rows = rows s @ [j], next_id = Suc (next_id s)\<rparr>))"

text \<open>
  The handler, on the parsed request body. \<open>insert_fails\<close> says that the INSERT query
  throws, \<open>now\<close> is the database clock. Destructuring a body that is undefined or null
  throws, which the catch block answers with 500.
\<close>

definition post_jobs :: "bool \<Rightarrow> int \<Rightarrow> jsval \<Rightarrow> store \<Rightarrow> submit_response \<times> store" where
  "post_jobs insert_fails now body s =
     (case get_prop body (lit ''job_type'') of
        Inl e \<Rightarrow> (Server_Error, s)
      | Inr jt \<Rightarrow>
     (case get_prop body (lit ''input_data'') of
        Inl e \<Rightarrow> (Server_Error, s)
      | Inr inp \<Rightarrow>
          if \<not> truthy jt \<or> \<not> truthy inp then
            (Bad_Request (lit ''Missing required fields: job_type, input_data''), s)
          else
            (case jt of
               Str t \<Rightarrow>
                 if t \<notin> set known_job_types then
                   (Bad_Request (lit ''Invalid job_type. Must be: prompt1, prompt2, or report_template''), s)
                 else if \<not> typeof_object inp then
                   (Bad_Request (lit ''Invalid input_data structure. Must include messages array''), s)
                 else
                   (case get_prop inp (lit ''messages'') of
                      Inl e \<Rightarrow> (Server_Error, s)
                    | Inr ms \<Rightarrow>
                        if \<not> truthy ms then
                          (Bad_Request (lit ''Invalid input_data structure. Must include messages array''), s)
                        else if insert_fails then (Server_Error, s)
                        else
                          (let (j, s') = insert_job t inp now s
                           in (Created (job_id j) (status j) (created_at j), s')))
             | _ \<Rightarrow>
                 (Bad_Request (lit ''Invalid job_type. Must be: prompt1, prompt2, or report_template''), s))))"

section \<open>The platform\<close>

text \<open>
  The environment and the library functions that the worker calls, as parameters:
  \<^verbatim>\<open>process.env\<close>, \<^verbatim>\<open>String.prototype.trim\<close> and \<^verbatim>\<open>toUpperCase\<close>, \<^verbatim>\<open>parseFloat\<close> (\<open>None\<close>
  for NaN), \<^verbatim>\<open>JSON.parse\<close> (\<open>Inl\<close> the SyntaxError), and the text that the database
  driver sends for a query parameter that is neither a string nor null.
\<close>

record platform =
  getenv :: "jsstring \<Rightarrow> jsstring option"
  trim :: "jsstring \<Rightarrow> jsstring"
  toUpperCase :: "jsstring \<Rightarrow> jsstring"
  parseFloat :: "jsstring \<Rightarrow> rat option"
  JSON_parse :: "jsstring \<Rightarrow> js_error + jsval"
  pg_text :: "jsval \<Rightarrow> jsstring"

definition defaults :: "(jsstring \<times> jsstring) list" where
  "defaults =
     [(lit ''PROMPT1_MODEL'', lit ''openai/gpt-5.1''),
      (lit ''PROMPT1_TEMPERATURE'', lit ''0.7''),
      (lit ''PROMPT2_MODEL'', lit ''openai/gpt-5.1''),
      (lit ''PROMPT2_TEMPERATURE'', lit ''0.7''),
      (lit ''REPORT_TEMPLATE_MODEL'', lit ''openai/gpt-5.1''),
      (lit ''REPORT_TEMPLATE_TEMPERATURE'', lit ''0.7'')]"

text \<open>\<open>None\<close> is the \<^verbatim>\<open>null\<close> that getSetting returns.\<close>

definition getSetting :: "platform \<Rightarrow> jsstring \<Rightarrow> jsstring option" where
  "getSetting p key =
     (let envKey = toUpperCase p key;
          dflt = (case map_of defaults envKey of
                    None \<Rightarrow> None
                  | Some d \<Rightarrow> if d \<noteq> [] then Some d else None)
      in case getenv p envKey of
           None \<Rightarrow> dflt
         | Some v \<Rightarrow> if v \<noteq> [] then Some v else dflt)"

definition getOpenRouterApiKey :: "platform \<Rightarrow> jsstring option" where
  "getOpenRouterApiKey p =
     (case getenv p (lit ''OPENROUTER_API_KEY'') of
        None \<Rightarrow> None
      | Some key \<Rightarrow> if key \<noteq> [] \<and> trim p key \<noteq> [] then Some (trim p key) else None)"

section \<open>The request of the worker\<close>

text \<open>The object that is sent as the JSON body; \<open>temperature\<close> is \<open>None\<close> when not set.\<close>

record request_body =
  model :: jsstring
  messages :: jsval
  max_tokens :: jsval
  temperature :: "rat option"

text \<open>
  The model and the temperature of a step. A temperature string that is null or empty
  gives undefined, one that parses to NaN is left out of the request.
\<close>

definition step_model :: "platform \<Rightarrow> jsstring \<Rightarrow> jsstring" where
  "step_model p stepKey =
     (case getSetting p (stepKey @ lit ''_MODEL'') of
        None \<Rightarrow> lit ''openai/gpt-5.1''
      | Some m \<Rightarrow> if m \<noteq> [] then m else lit ''openai/gpt-5.1'')"

definition step_temperature :: "platform \<Rightarrow> jsstring \<Rightarrow> rat option" where
  "step_temperature p stepKey =
     (case getSetting p (stepKey @ lit ''_TEMPERATURE'') of
        None \<Rightarrow> None
      | Some t \<Rightarrow> if t \<noteq> [] then parseFloat p t else None)"

text \<open>
  Lines 498 to 521 of processNextJob: the API key, then the request body of the claimed
  job, then the log line that prints \<^verbatim>\<open>requestBody.max_tokens\<close>. \<open>Inl\<close> is the error
  thrown.
\<close>

definition build_request :: "platform \<Rightarrow> job \<Rightarrow> js_error + (jsstring \<times> request_body)" where
  "build_request p j =
     (case getOpenRouterApiKey p of
        None \<Rightarrow> Inl (new_Error (lit ''OpenRouter API key not configured.''))
      | Some apiKey \<Rightarrow>
          (let stepKey = toUpperCase p (job_type j) in
           case get_prop (input_data j) (lit ''messages'') of
             Inl e \<Rightarrow> Inl e
           | Inr ms \<Rightarrow>
               (case get_prop (input_data j) (lit ''max_tokens'') of
                  Inl e \<Rightarrow> Inl e
                | Inr mt \<Rightarrow>
                    if stringifies (js_or mt (Num 4000)) then
                      Inr (apiKey,
                           \<lparr>model = step_model p stepKey, messages = ms,
                            max_tokens = js_or mt (Num 4000),
                            temperature = step_temperature p stepKey\<rparr>)
                    else Inl cannot_convert)))"

section \<open>The upstream and fetch\<close>

text \<open>
  What the provider does with one request: the connection fails, or a response arrives
  after some milliseconds with a status and a body (whose reading as text may fail
  too), or nothing ever arrives.
\<close>

datatype upstream =
    Rejects js_error
  | Responds nat nat "js_error + jsstring" \<comment> \<open>latency in ms, status, \<^verbatim>\<open>response.text()\<close>\<close>
  | Silent

record response =
  http_status :: nat
  body_text :: "js_error + jsstring"

definition ok :: "response \<Rightarrow> bool" where
  "ok r = (200 \<le> http_status r \<and> http_status r \<le> 299)"

definition AbortError :: js_error where
  "AbortError = \<lparr>err_name = lit ''AbortError'', message = lit ''This operation was aborted''\<rparr>"

text \<open>
  \<^verbatim>\<open>await fetch(url, {..., signal})\<close>. The first argument is the time in milliseconds
  after which the signal aborts the call, \<open>None\<close> when fetch is called without a signal.
  The result \<open>None\<close> is a promise that never settles.
\<close>

fun fetch :: "nat option \<Rightarrow> upstream \<Rightarrow> (js_error + response) option" where
  "fetch signal (Rejects e) = Some (Inl e)"
| "fetch None (Responds t st b) = Some (Inr \<lparr>http_status = st, body_text = b\<rparr>)"
| "fetch (Some limit) (Responds t st b) =
     (if t < limit then Some (Inr \<lparr>http_status = st, body_text = b\<rparr>) else Some (Inl AbortError))"
| "fetch None Silent = None"
| "fetch (Some limit) Silent = Some (Inl AbortError)"

section \<open>One attempt of the worker\<close>

definition and_then :: "js_error + 'a \<Rightarrow> ('a \<Rightarrow> js_error + 'b) \<Rightarrow> js_error + 'b" where
  "and_then r f = (case r of Inl e \<Rightarrow> Inl e | Inr v \<Rightarrow> f v)"

text \<open>\<^verbatim>\<open>JSON.parse(responseText)\<close> and \<^verbatim>\<open>data.choices[0].message.content\<close>\<close>

definition read_completion :: "platform \<Rightarrow> jsstring \<Rightarrow> js_error + jsval" where
  "read_completion p responseText =
     and_then (JSON_parse p responseText) (\<lambda>data.
     and_then (get_prop data (lit ''choices'')) (\<lambda>choices.
     and_then (get_first choices) (\<lambda>choice.
     and_then (get_prop choice (lit ''message'')) (\<lambda>msg.
       get_prop msg (lit ''content'')))))"

definition api_error :: "nat \<Rightarrow> jsstring \<Rightarrow> js_error" where
  "api_error st errorText =
     new_Error (lit ''OpenRouter API error: '' @ show_nat st @ lit '' - '' @ errorText)"

definition too_short :: "nat \<Rightarrow> js_error" where
  "too_short n = new_Error (lit ''Response too short ('' @ show_nat n @ lit '' chars), likely truncated'')"

text \<open>
  The body of the inner try block after the delay (lines 536 to 557): \<open>Inr\<close> is the value
  assigned to \<^verbatim>\<open>result\<close>, \<open>Inl\<close> the error that reaches the catch. The worker calls fetch
  without a signal.
\<close>

definition worker_attempt :: "platform \<Rightarrow> upstream \<Rightarrow> (js_error + jsval) option" where
  "worker_attempt p u =
     (case fetch None u of
        None \<Rightarrow> None
      | Some (Inl e) \<Rightarrow> Some (Inl e)
      | Some (Inr r) \<Rightarrow>
          Some (if \<not> ok r then
                  (case body_text r of
                     Inl e \<Rightarrow> Inl e
                   | Inr errorText \<Rightarrow> Inl (api_error (http_status r) errorText))
                else
                  (case body_text r of
                     Inl e \<Rightarrow> Inl e
                   | Inr responseText \<Rightarrow>
                       if length responseText < 500 then Inl (too_short (length responseText))
                       else read_completion p responseText)))"

section \<open>The retry loop of the worker\<close>

text \<open>
  How the loop ends: with a value in \<^verbatim>\<open>result\<close>, by throwing, or never. \<open>waits\<close> are the
  delays slept, in order and in milliseconds; \<open>fetches\<close> counts the calls of fetch.
\<close>

datatype loop_end = Got jsval | Threw js_error | Never

record loop_result =
  outcome :: loop_end
  waits :: "nat list"
  fetches :: nat

definition maxRetries :: nat where
  "maxRetries = 3"

text \<open>
  Lines 528 to 566, entered with \<^verbatim>\<open>retries\<close>; \<open>ups\<close> gives what the upstream does with the
  request of each round. A loop left because \<^verbatim>\<open>retries\<close> reached the maximum leaves
  \<^verbatim>\<open>result\<close> undefined.
\<close>

function worker_loop :: "platform \<Rightarrow> (nat \<Rightarrow> upstream) \<Rightarrow> nat \<Rightarrow> loop_result" where
  "worker_loop p ups retries =
     (if retries < maxRetries then
        (let delay = (if retries > 0 then [2 ^ retries * 1000] else []) in
         case worker_attempt p (ups retries) of
           None \<Rightarrow> \<lparr>outcome = Never, waits = delay, fetches = 1\<rparr>
         | Some (Inr v) \<Rightarrow> \<lparr>outcome = Got v, waits = delay, fetches = 1\<rparr>
         | Some (Inl fetchError) \<Rightarrow>
             if retries + 1 \<ge> maxRetries then
               \<lparr>outcome = Threw fetchError, waits = delay, fetches = 1\<rparr>
             else
               (let r = worker_loop p ups (retries + 1)
                in r\<lparr>waits := delay @ waits r, fetches := 1 + fetches r\<rparr>))
      else \<lparr>outcome = Got Undefined, waits = [], fetches = 0\<rparr>)"
  by pat_completeness auto
termination
  by (relation "measure (\<lambda>(p, ups, retries). maxRetries - retries)") auto

declare worker_loop.simps [simp del]

section \<open>The statements of the worker on the table\<close>

text \<open>
  \<^verbatim>\<open>SELECT ... WHERE status = 'pending' ORDER BY created_at ASC LIMIT 1 FOR UPDATE SKIP
  LOCKED\<close>. \<open>locked\<close> are the ids of the rows that other transactions hold locked. Rows
  with equal \<^verbatim>\<open>created_at\<close> come in the order of the table.
\<close>

definition select_next_pending :: "nat set \<Rightarrow> store \<Rightarrow> job option" where
  "select_next_pending locked s =
     (case sort_key created_at
             (filter (\<lambda>j. status j = Pending \<and> job_id j \<notin> locked) (rows s)) of
        [] \<Rightarrow> None
      | j # _ \<Rightarrow> Some j)"

text \<open>\<^verbatim>\<open>UPDATE jobs SET status = 'processing' WHERE id = $1\<close>\<close>

definition update_processing :: "nat \<Rightarrow> store \<Rightarrow> store" where
  "update_processing i s =
     s\<lparr>rows := map (\<lambda>j. if job_id j = i then j\<lparr>status := Processing\<rparr> else j) (rows s)\<rparr>"

text \<open>
  \<^verbatim>\<open>UPDATE jobs SET status = 'completed', result_data = $1, completed_at =
  CURRENT_TIMESTAMP WHERE id = $2\<close>
\<close>

definition update_completed :: "jsstring option \<Rightarrow> int \<Rightarrow> nat \<Rightarrow> store \<Rightarrow> store" where
  "update_completed res now i s =
     s\<lparr>rows := map (\<lambda>j. if job_id j = i
                         then j\<lparr>status := Completed, result_data := res, completed_at := Some now\<rparr>
                         else j) (rows s)\<rparr>"

text \<open>
  \<^verbatim>\<open>UPDATE jobs SET status = 'failed', error = $1, completed_at = CURRENT_TIMESTAMP
  WHERE id = $2\<close>
\<close>

definition update_failed :: "jsstring option \<Rightarrow> int \<Rightarrow> nat \<Rightarrow> store \<Rightarrow> store" where
  "update_failed err now i s =
     s\<lparr>rows := map (\<lambda>j. if job_id j = i
                         then j\<lparr>status := Failed, error := err, completed_at := Some now\<rparr>
                         else j) (rows s)\<rparr>"

text \<open>
  A query parameter as the driver sends it: null and undefined as NULL, a string as
  itself, any other value as the text the driver makes of it.
\<close>

definition pg_param :: "platform \<Rightarrow> jsval \<Rightarrow> jsstring option" where
  "pg_param p v =
     (case v of
        Undefined \<Rightarrow> None
      | Null \<Rightarrow> None
      | Str s \<Rightarrow> Some s
      | _ \<Rightarrow> Some (pg_text p v))"

section \<open>processNextJob\<close>

text \<open>
  What surrounds one run of processNextJob: the platform; what the upstream does with
  the request (the API key and the body) in each round; the rows locked by other
  transactions; whether a statement of the claiming transaction throws; the error with
  which the completing UPDATE throws, if it does; whether the failing UPDATE throws; and
  CURRENT_TIMESTAMP of the final UPDATE. A statement that throws changes no row.
\<close>

record worker_env =
  w_platform :: platform
  w_upstream :: "jsstring \<times> request_body \<Rightarrow> nat \<Rightarrow> upstream"
  w_locked :: "nat set"
  claim_tx_fails :: bool
  complete_query_error :: "js_error option"
  fail_query_fails :: bool
  w_clock :: int

text \<open>
  Lines 466 to 492: the transaction that claims a job. An error rolls it back and ends
  the run in the outer catch.
\<close>

definition claim_phase :: "worker_env \<Rightarrow> store \<Rightarrow> job option \<times> store" where
  "claim_phase env s =
     (if claim_tx_fails env then (None, s)
      else case select_next_pending (w_locked env) s of
             None \<Rightarrow> (None, s)
           | Some j \<Rightarrow> (Some j, update_processing (job_id j) s))"

text \<open>
  Lines 578 to 588: the catch block records the error message. When its UPDATE throws,
  the outer catch logs and the row stays as it is.
\<close>

definition record_failure :: "worker_env \<Rightarrow> job \<Rightarrow> js_error \<Rightarrow> store \<Rightarrow> store" where
  "record_failure env j processingError s =
     (if fail_query_fails env then s
      else update_failed (Some (message processingError)) (w_clock env) (job_id j) s)"

text \<open>
  Lines 497 to 588, for the claimed row \<open>j\<close>: the table afterwards, and whether the run
  returns at all. \<^verbatim>\<open>result.length\<close> is read and printed in the log line before the
  UPDATE.
\<close>

definition process_phase :: "worker_env \<Rightarrow> job \<Rightarrow> store \<Rightarrow> store \<times> bool" where
  "process_phase env j s =
     (case build_request (w_platform env) j of
        Inl e \<Rightarrow> (record_failure env j e s, True)
      | Inr req \<Rightarrow>
          (case outcome (worker_loop (w_platform env) (w_upstream env req) 0) of
             Never \<Rightarrow> (s, False)
           | Threw e \<Rightarrow> (record_failure env j e s, True)
           | Got result \<Rightarrow>
               (case get_prop result (lit ''length'') of
                  Inl e \<Rightarrow> (record_failure env j e s, True)
                | Inr n \<Rightarrow>
                    if \<not> stringifies n then (record_failure env j cannot_convert s, True)
                    else
                      (case complete_query_error env of
                         Some e \<Rightarrow> (record_failure env j e s, True)
                       | None \<Rightarrow>
                           (update_completed (pg_param (w_platform env) result) (w_clock env)
                              (job_id j) s, True)))))"


section \<open>The server over time\<close>

text \<open>
  The timer starts processNextJob every five seconds whether or not the last run has
  returned, and several processes may share the table. So the table is changed by four
  kinds of events: a POST, the claiming transaction of a run, the rest of a run for a
  job claimed earlier (by its id), and a sweep. \<open>in_flight\<close> holds the rows that runs
  have claimed and not yet recorded.
\<close>

record system =
  table :: store
  in_flight :: "job list"

datatype event =
    Submit bool int jsval
  | Claim worker_env
  | Finish nat worker_env
  | Sweep bool int

definition initial :: system where
  "initial = \<lparr>table = \<lparr>rows = [], next_id = 1\<rparr>, in_flight = []\<rparr>"

fun apply_event :: "event \<Rightarrow> system \<Rightarrow> system" where
  "apply_event (Submit insert_fails now body) sys =
     sys\<lparr>table := snd (post_jobs insert_fails now body (table sys))\<rparr>"
| "apply_event (Claim env) sys =
     (case claim_phase env (table sys) of
        (None, s') \<Rightarrow> sys\<lparr>table := s'\<rparr>
      | (Some j, s') \<Rightarrow> \<lparr>table = s', in_flight = j # in_flight sys\<rparr>)"
| "apply_event (Finish i env) sys =
     (case find (\<lambda>j. job_id j = i) (in_flight sys) of
        None \<Rightarrow> sys
      | Some j \<Rightarrow>
          (case process_phase env j (table sys) of
             (s', returned) \<Rightarrow>
               if returned
               then \<lparr>table = s', in_flight = filter (\<lambda>k. job_id k \<noteq> i) (in_flight sys)\<rparr>
               else sys))"
| "apply_event (Sweep query_fails now_ms) sys =
     sys\<lparr>table := fst (cleanupOldJobs query_fails now_ms (table sys))\<rparr>"

fun run :: "event list \<Rightarrow> system \<Rightarrow> system" where
  "run [] sys = sys"
| "run (e # es) sys = run es (apply_event e sys)"

section \<open>POST /api/openrouter/chat/completions\<close>

text \<open>
  The proxy endpoint has a retry loop of its own (lines 224 to 308). Each round arms a
  timer of 300000 ms that aborts the call, then sleeps the delay, then calls fetch with
  the signal; the timer is cleared when fetch returns.
\<close>

datatype proxy_reply =
    Reply_json jsval \<comment> \<open>\<^verbatim>\<open>res.json(data)\<close>\<close>
  | Reply_error nat jsstring \<comment> \<open>\<^verbatim>\<open>res.status(code).json({ error })\<close>\<close>
  | No_reply

definition failed_to_process :: proxy_reply where
  "failed_to_process =
     Reply_error 500
       (lit ''Failed to process request. Please try again or contact support if the issue persists.'')"

definition request_timeout :: proxy_reply where
  "request_timeout =
     Reply_error 408
       (lit ''Request timeout - the response took too long to generate. Please try again or use a smaller prompt.'')"

text \<open>
  \<^verbatim>\<open>v?.k\<close> and \<^verbatim>\<open>v?.[0]\<close>, for the keys of \<open>get_prop\<close>.
\<close>

definition opt_prop :: "jsval \<Rightarrow> jsstring \<Rightarrow> jsval" where
  "opt_prop v k = (case get_prop v k of Inl e \<Rightarrow> Undefined | Inr x \<Rightarrow> x)"

definition opt_first :: "jsval \<Rightarrow> jsval" where
  "opt_first v = (case get_first v of Inl e \<Rightarrow> Undefined | Inr x \<Rightarrow> x)"

text \<open>
  The inner try block around JSON.parse (lines 273 to 279). Its log line prints
  \<^verbatim>\<open>data.choices?.[0]?.message?.content?.length || 0\<close>, so a parsed null, or a length
  that cannot be printed, counts as a parse error.
\<close>

definition proxy_parse :: "platform \<Rightarrow> jsstring \<Rightarrow> js_error + jsval" where
  "proxy_parse p responseText =
     (case and_then (JSON_parse p responseText)
             (\<lambda>data. and_then (get_prop data (lit ''choices'')) (\<lambda>choices.
                if stringifies
                     (js_or (opt_prop (opt_prop (opt_prop (opt_first choices) (lit ''message''))
                                         (lit ''content'')) (lit ''length''))
                            (Num 0))
                then Inr data else Inl cannot_convert)) of
        Inl parseError \<Rightarrow> Inl (new_Error (lit ''Failed to parse OpenRouter response''))
      | Inr data \<Rightarrow> Inr data)"

text \<open>
  The try block of one round after the delay (lines 242 to 281): \<open>Inr\<close> is the reply sent
  from inside it, \<open>Inl\<close> the error that reaches the catch.
\<close>

definition proxy_attempt :: "platform \<Rightarrow> nat \<Rightarrow> upstream \<Rightarrow> (js_error + proxy_reply) option" where
  "proxy_attempt p delay u =
     (case fetch (Some (300000 - delay)) u of
        None \<Rightarrow> None
      | Some (Inl e) \<Rightarrow> Some (Inl e)
      | Some (Inr r) \<Rightarrow>
          Some (if \<not> ok r then
                  (case body_text r of
                     Inl e \<Rightarrow> Inl e
                   | Inr errorText \<Rightarrow>
                       Inr (Reply_error (http_status r)
                              (lit ''OpenRouter API error. Please try again or contact support if the issue persists.'')))
                else
                  (case body_text r of
                     Inl e \<Rightarrow> Inl e
                   | Inr responseText \<Rightarrow>
                       if length responseText < 500 then Inl (too_short (length responseText))
                       else
                         (case proxy_parse p responseText of
                            Inl e \<Rightarrow> Inl e
                          | Inr data \<Rightarrow> Inr (Reply_json data)))))"

function proxy_loop :: "platform \<Rightarrow> (nat \<Rightarrow> upstream) \<Rightarrow> nat \<Rightarrow> proxy_reply" where
  "proxy_loop p ups retries =
     (if retries < maxRetries then
        (case proxy_attempt p (if retries > 0 then 2 ^ retries * 1000 else 0) (ups retries) of
           None \<Rightarrow> No_reply
         | Some (Inr reply) \<Rightarrow> reply
         | Some (Inl fetchError) \<Rightarrow>
             if err_name fetchError = lit ''AbortError'' then request_timeout
             else if retries + 1 \<ge> maxRetries then failed_to_process
             else proxy_loop p ups (retries + 1))
      else failed_to_process)"
  by pat_completeness auto
termination
  by (relation "measure (\<lambda>(p, ups, retries). maxRetries - retries)") auto

declare proxy_loop.simps [simp del]

text \<open>
  The handler, on the parsed request body. A \<^verbatim>\<open>step\<close> that is truthy and no string has
  no toUpperCase, and the TypeError ends in the outer catch, as does the one of a
  \<^verbatim>\<open>max_tokens\<close> that the log line cannot print.
\<close>

definition post_chat_completions ::
    "platform \<Rightarrow> (jsstring \<times> request_body \<Rightarrow> nat \<Rightarrow> upstream) \<Rightarrow> jsval \<Rightarrow> proxy_reply" where
  "post_chat_completions p ups body =
     (case and_then (get_prop body (lit ''step'')) (\<lambda>step.
           and_then (get_prop body (lit ''messages'')) (\<lambda>ms.
           and_then (get_prop body (lit ''max_tokens'')) (\<lambda>mt. Inr (step, ms, mt)))) of
        Inl e \<Rightarrow> failed_to_process
      | Inr (step, ms, mt) \<Rightarrow>
          if \<not> truthy step then
            Reply_error 400
              (lit ''Missing step parameter. Must be one of: prompt1, prompt2, report_template'')
          else
            (case getOpenRouterApiKey p of
               None \<Rightarrow>
                 Reply_error 500
                   (lit ''OpenRouter API key not configured. Please contact the administrator.'')
             | Some apiKey \<Rightarrow>
                 (case step of
                    Str st \<Rightarrow>
                      (let stepKey = toUpperCase p st;
                           requestBody =
                             \<lparr>model = step_model p stepKey, messages = ms,
                              max_tokens = js_or mt (Num 4000),
                              temperature = step_temperature p stepKey\<rparr>
                       in if stringifies (max_tokens requestBody)
                          then proxy_loop p (ups (apiKey, requestBody)) 0
                          else failed_to_process)
                  | _ \<Rightarrow> failed_to_process)))"

section \<open>Invariants\<close>

text \<open>
  What a row holds in each status, what the table holds (distinct ids below the
  sequence, and such rows), and what ties the runs in flight to the table: each has
  claimed a different row, and that row is in processing.
\<close>

definition row_ok :: "job \<Rightarrow> bool" where
  "row_ok j =
     (case status j of
        Pending \<Rightarrow> result_data j = None \<and> error j = None \<and> completed_at j = None
      | Processing \<Rightarrow> result_data j = None \<and> error j = None \<and> completed_at j = None
      | Completed \<Rightarrow> result_data j \<noteq> None \<and> error j = None \<and> completed_at j \<noteq> None
      | Failed \<Rightarrow> result_data j = None \<and> error j \<noteq> None \<and> completed_at j \<noteq> None)"

definition store_ok :: "store \<Rightarrow> bool" where
  "store_ok s =
     (distinct (map job_id (rows s)) \<and> (\<forall>j \<in> set (rows s). job_id j < next_id s \<and> row_ok j))"

definition sys_ok :: "system \<Rightarrow> bool" where
  "sys_ok sys =
     (store_ok (table sys) \<and> distinct (map job_id (in_flight sys)) \<and>
      (\<forall>f \<in> set (in_flight sys).
         \<exists>j \<in> set (rows (table sys)). job_id j = job_id f \<and> status j = Processing))"

text \<open>The shape shared by the three UPDATE statements: by id, with the assignment \<open>g\<close>.\<close>

definition update_where_id :: "nat \<Rightarrow> (job \<Rightarrow> job) \<Rightarrow> job list \<Rightarrow> job list" where
  "update_where_id i g js = map (\<lambda>k. if job_id k = i then g k else k) js"

section \<open>Example data\<close>

text \<open>
  A table with a job completed half an hour after the epoch, a job claimed at the epoch
  and never recorded, and a job failed six hours after the epoch.
\<close>

definition sweep_store :: store where
  "sweep_store =
     \<lparr>rows =
        [\<lparr>job_id = 1, job_type = lit ''prompt1'', status = Completed,
          input_data = Obj [(lit ''messages'', Arr [])],
          result_data = Some (lit ''plan''), error = None,
          created_at = 0, completed_at = Some 1800000000\<rparr>,
         \<lparr>job_id = 2, job_type = lit ''prompt2'', status = Processing,
          input_data = Obj [(lit ''messages'', Arr [])],
          result_data = None, error = None,
          created_at = 0, completed_at = None\<rparr>,
         \<lparr>job_id = 3, job_type = lit ''prompt1'', status = Failed,
          input_data = Obj [(lit ''messages'', Arr [])],
          result_data = None, error = Some (lit ''fetch failed''),
          created_at = 0, completed_at = Some 21600000000\<rparr>],
      next_id = 4\<rparr>"

text \<open>
  A platform with an API key and no other setting, which parses one response body. The
  body is a completion of 77 characters padded with blanks to 512.
\<close>

definition good_body :: jsstring where
  \<open>good_body =
     lit ''{"choices":[{"message":{"role":"assistant","content":"An evaluation plan"}}]}'' @
     replicate 435 32\<close>

definition good_data :: jsval where
  "good_data =
     Obj [(lit ''choices'',
           Arr [Obj [(lit ''message'',
                      Obj [(lit ''role'', Str (lit ''assistant'')),
                           (lit ''content'', Str (lit ''An evaluation plan''))])]])]"

definition tiny_body :: jsstring where
  \<open>tiny_body = lit ''{"a":null}''\<close>

definition node :: platform where
  "node =
     \<lparr>getenv = (\<lambda>k. if k = lit ''OPENROUTER_API_KEY'' then Some (lit ''sk-or-v1'') else None),
      trim = (\<lambda>s. s),
      toUpperCase = (\<lambda>s. if s = lit ''prompt1'' then lit ''PROMPT1'' else s),
      parseFloat = (\<lambda>s. if s = lit ''0.7'' then Some (7 / 10) else None),
      JSON_parse =
        (\<lambda>s. if s = good_body then Inr good_data
             else Inl \<lparr>err_name = lit ''SyntaxError'',
                       message = lit ''Unexpected end of JSON input''\<rparr>),
      pg_text = (\<lambda>v. lit ''[object Object]'')\<rparr>"

text \<open>The job of the request \<^verbatim>\<open>{messages: [{role: "user", content: "hello"}]}\<close>.\<close>

definition hello_messages :: jsval where
  "hello_messages =
     Arr [Obj [(lit ''role'', Str (lit ''user'')), (lit ''content'', Str (lit ''hello''))]]"

definition hello_job :: job where
  "hello_job =
     \<lparr>job_id = 1, job_type = lit ''prompt1'', status = Pending,
      input_data = Obj [(lit ''messages'', hello_messages)],
      result_data = None, error = None, created_at = 500, completed_at = None\<rparr>"

definition hello_request :: "jsstring \<times> request_body" where
  "hello_request =
     (lit ''sk-or-v1'',
      \<lparr>model = lit ''openai/gpt-5.1'', messages = hello_messages,
       max_tokens = Num 4000, temperature = Some (7 / 10)\<rparr>)"

text \<open>The same with \<^verbatim>\<open>max_tokens: 8000\<close>.\<close>

definition capped_job :: job where
  "capped_job =
     hello_job\<lparr>input_data :=
       Obj [(lit ''messages'', hello_messages), (lit ''max_tokens'', Num 8000)]\<rparr>"

text \<open>The table once \<open>hello_job\<close> is claimed.\<close>

definition claimed_store :: store where
  "claimed_store = \<lparr>rows = [hello_job\<lparr>status := Processing\<rparr>], next_id = 2\<rparr>"

text \<open>
  An upstream whose connection fails twice and which then answers, one that answers 503
  each time, and one that never answers.
\<close>

definition fetch_failed :: js_error where
  "fetch_failed = \<lparr>err_name = lit ''TypeError'', message = lit ''fetch failed''\<rparr>"

definition flaky_env :: worker_env where
  "flaky_env =
     \<lparr>w_platform = node,
      w_upstream = (\<lambda>req n. if n < 2 then Rejects fetch_failed
                             else Responds 9000 200 (Inr good_body)),
      w_locked = {}, claim_tx_fails = False, complete_query_error = None,
      fail_query_fails = False, w_clock = 7000000\<rparr>"

definition down_env :: worker_env where
  "down_env =
     flaky_env\<lparr>w_upstream := (\<lambda>req n. Responds 120 503 (Inr (lit ''Service Unavailable'')))\<rparr>"


text \<open>The table before any request, three request bodies, and the table after the third.\<close>

definition empty_store :: store where
  "empty_store = \<lparr>rows = [], next_id = 1\<rparr>"

definition no_messages_body :: jsval where
  "no_messages_body =
     Obj [(lit ''job_type'', Str (lit ''prompt1'')),
          (lit ''input_data'', Obj [(lit ''messages'', Arr [])])]"

definition bogus_body :: jsval where
  "bogus_body =
     Obj [(lit ''job_type'', Str (lit ''bogus'')),
          (lit ''input_data'', Obj [(lit ''messages'', hello_messages)])]"

definition hello_body :: jsval where
  "hello_body =
     Obj [(lit ''job_type'', Str (lit ''prompt1'')),
          (lit ''input_data'', Obj [(lit ''messages'', hello_messages)])]"

definition one_pending :: store where
  "one_pending = \<lparr>rows = [hello_job], next_id = 2\<rparr>"

text \<open>A table with a completed job and two pending ones, the later row being the older job.\<close>

definition queue_store :: store where
  "queue_store =
     \<lparr>rows =
        [hello_job\<lparr>job_id := 1, status := Completed, result_data := Some (lit ''plan''),
                    created_at := 100, completed_at := Some 900\<rparr>,
         hello_job\<lparr>job_id := 2, created_at := 300\<rparr>,
         hello_job\<lparr>job_id := 3, created_at := 200\<rparr>],
      next_id = 4\<rparr>"

text \<open>The table after the run against each upstream, and the events of such a run.\<close>

definition done_store :: store where
  "done_store =
     \<lparr>rows = [hello_job\<lparr>status := Completed, result_data := Some (lit ''An evaluation plan''),
                         completed_at := Some 7000000\<rparr>],
      next_id = 2\<rparr>"

definition failed_store :: store where
  "failed_store =
     \<lparr>rows = [hello_job\<lparr>status := Failed,
                         error := Some (message (api_error 503 (lit ''Service Unavailable''))),
                         completed_at := Some 7000000\<rparr>],
      next_id = 2\<rparr>"

definition hello_events :: "worker_env \<Rightarrow> event list" where
  "hello_events env = [Submit False 500 hello_body, Claim env, Finish 1 env]"

section \<open>Facts about strings\<close>

lemma char_unit_small: "take_bit 16 (of_char c :: nat) = of_char c"
proof -
  have "(of_char c :: nat) < 256" by (rule nat_of_char_less_256)
  also have "(256::nat) < 2 ^ 16" by simp
  finally have "(of_char c :: nat) < 2 ^ 16" .
  then show ?thesis by (rule take_bit_nat_eq_self)
qed

lemma char_unit_inj: "(of_nat (of_char c) :: 16 word) = of_nat (of_char d) \<longleftrightarrow> c = d"
  by (simp add: word_of_nat_eq_iff char_unit_small)

lemma lit_eq_iff [simp]: "lit a = lit b \<longleftrightarrow> a = b"
  unfolding lit_def
  by (rule inj_map_eq_map) (auto simp: inj_on_def char_unit_inj)

lemma length_lit [simp]: "length (lit s) = length s"
  by (simp add: lit_def)

lemma lit_Nil [simp]: "lit s = [] \<longleftrightarrow> s = []"
  by (simp add: lit_def)

lemma Nil_lit [simp]: "[] = lit s \<longleftrightarrow> s = []"
  by (simp add: lit_def)

lemma lit_append: "lit a @ lit b = lit (a @ b)"
  by (simp add: lit_def)

section \<open>Facts about the example data\<close>

lemma length_good_body: "length good_body = 512"
  by (simp add: good_body_def)

lemma length_tiny_body: "length tiny_body = 10"
  by (simp add: tiny_body_def)

lemma node_api_key: "getOpenRouterApiKey node = Some (lit ''sk-or-v1'')"
  by (simp add: getOpenRouterApiKey_def node_def)

lemma node_reads_good_body: "read_completion node good_body = Inr (Str (lit ''An evaluation plan''))"
  by (simp add: read_completion_def node_def good_data_def and_then_def)

lemma node_upper: "toUpperCase node (lit ''prompt1'') = lit ''PROMPT1''"
  by (simp add: node_def)

lemma node_model: "step_model node (lit ''PROMPT1'') = lit ''openai/gpt-5.1''"
  by (simp add: step_model_def getSetting_def defaults_def node_def lit_append)

lemma node_temperature: "step_temperature node (lit ''PROMPT1'') = Some (7 / 10)"
  by (simp add: step_temperature_def getSetting_def defaults_def node_def lit_append)

lemma node_hello_request: "build_request node hello_job = Inr hello_request"
  by (simp add: build_request_def node_api_key hello_job_def hello_request_def js_or_def
      node_upper node_model node_temperature)

lemma flaky_rounds:
  "worker_attempt node (w_upstream flaky_env hello_request 0) = Some (Inl fetch_failed)"
  "worker_attempt node (w_upstream flaky_env hello_request 1) = Some (Inl fetch_failed)"
  "worker_attempt node (w_upstream flaky_env hello_request 2) = Some (Inr (Str (lit ''An evaluation plan'')))"
  by (simp_all add: flaky_env_def worker_attempt_def ok_def length_good_body node_reads_good_body)

lemma down_rounds:
  "worker_attempt node (w_upstream down_env hello_request n) =
     Some (Inl (api_error 503 (lit ''Service Unavailable'')))"
  by (simp add: down_env_def flaky_env_def worker_attempt_def ok_def)

section \<open>The retention sweep\<close>

lemma delete_where_mono: "c' \<le> c \<Longrightarrow> delete_where c' j \<Longrightarrow> delete_where c j"
  by (auto simp: delete_where_def split: option.splits)

lemma sweep_again_empty:
  "now' \<le> now \<Longrightarrow>
   filter (delete_where (sixHoursAgo now'))
     (filter (\<lambda>j. \<not> delete_where (sixHoursAgo now) j) js) = []"
proof -
  assume "now' \<le> now"
  then have "sixHoursAgo now' \<le> sixHoursAgo now" by (simp add: sixHoursAgo_def)
  then show ?thesis
    by (auto simp: filter_empty_conv dest: delete_where_mono)
qed

text \<open>
  C9, as stated, fails: the sweep reads the clock, so the second of two sweeps has a
  later cutoff. On \<open>sweep_store\<close> a sweep six hours after the epoch deletes nothing and
  changes no job, and the next hourly sweep deletes job 1, which has aged past the
  cutoff meanwhile.
\<close>

theorem second_sweep_deletes_counterexample:
  "cleanupOldJobs False 21600000 sweep_store = (sweep_store, []) \<and>
   snd (cleanupOldJobs False 25200000 (fst (cleanupOldJobs False 21600000 sweep_store))) = [1]"
  by (simp add: cleanupOldJobs_def sweep_store_def delete_where_def sixHoursAgo_def)

text \<open>
  C9, amended: a sweep that succeeds deletes exactly the rows whose status is completed
  or failed and whose \<^verbatim>\<open>completed_at\<close> is earlier than the cutoff, six hours before the
  clock reading; it keeps every pending and every processing row, however old; and a
  second sweep at the same clock reading (or an earlier one) deletes no row.
\<close>

theorem sweep_deletes_old_terminal_jobs:
  "cleanupOldJobs False now s = (s', deleted) \<Longrightarrow>
     sixHoursAgo now = (now - 21600000) * 1000
   \<and> set (rows s') =
       {j \<in> set (rows s). \<not> ((status j = Completed \<or> status j = Failed) \<and>
                               (\<exists>t. completed_at j = Some t \<and> t < sixHoursAgo now))}
   \<and> deleted = map job_id (filter (\<lambda>j. j \<notin> set (rows s')) (rows s))
   \<and> (\<forall>j \<in> set (rows s). status j = Pending \<or> status j = Processing \<longrightarrow> j \<in> set (rows s'))
   \<and> (\<forall>now'. now' \<le> now \<longrightarrow> cleanupOldJobs False now' s' = (s', []))"
proof -
  assume a: "cleanupOldJobs False now s = (s', deleted)"
  let ?c = "sixHoursAgo now"
  have dw: "\<And>j. delete_where ?c j \<longleftrightarrow>
      ((status j = Completed \<or> status j = Failed) \<and> (\<exists>t. completed_at j = Some t \<and> t < ?c))"
    by (auto simp: delete_where_def split: option.splits)
  from a have s': "s' = s\<lparr>rows := filter (\<lambda>j. \<not> delete_where ?c j) (rows s)\<rparr>"
    and d: "deleted = map job_id (filter (delete_where ?c) (rows s))"
    by (auto simp: cleanupOldJobs_def)
  have 1: "sixHoursAgo now = (now - 21600000) * 1000" by (simp add: sixHoursAgo_def)
  have 2: "set (rows s') =
       {j \<in> set (rows s). \<not> ((status j = Completed \<or> status j = Failed) \<and>
                               (\<exists>t. completed_at j = Some t \<and> t < ?c))}"
    using dw by (auto simp: s')
  have 3: "deleted = map job_id (filter (\<lambda>j. j \<notin> set (rows s')) (rows s))"
    unfolding d s' by (auto intro!: arg_cong[where f="map job_id"] filter_cong)
  have 4: "\<forall>j \<in> set (rows s). status j = Pending \<or> status j = Processing \<longrightarrow> j \<in> set (rows s')"
    by (auto simp: s' delete_where_def)
  have 5: "\<forall>now'. now' \<le> now \<longrightarrow> cleanupOldJobs False now' s' = (s', [])"
  proof (intro allI impI)
    fix now' :: int assume le: "now' \<le> now"
    have e: "filter (delete_where (sixHoursAgo now')) (rows s') = []"
      unfolding s' using sweep_again_empty[OF le] by simp
    then have "filter (\<lambda>j. \<not> delete_where (sixHoursAgo now') j) (rows s') = rows s'"
      by (simp add: filter_empty_conv filter_id_conv)
    with e show "cleanupOldJobs False now' s' = (s', [])"
      by (simp add: cleanupOldJobs_def)
  qed
  from 1 2 3 4 5 show ?thesis by blast
qed

theorem sweep_deletes_old_terminal_jobs_witness:
  "cleanupOldJobs False 25200000 sweep_store = (sweep_store\<lparr>rows := tl (rows sweep_store)\<rparr>, [1]) \<and>
   status (rows sweep_store ! 1) = Processing \<and>
   rows sweep_store ! 1 \<in> set (rows (sweep_store\<lparr>rows := tl (rows sweep_store)\<rparr>)) \<and>
   cleanupOldJobs False 25200000 (sweep_store\<lparr>rows := tl (rows sweep_store)\<rparr>) =
     (sweep_store\<lparr>rows := tl (rows sweep_store)\<rparr>, [])"
proof -
  let ?s' = "sweep_store\<lparr>rows := tl (rows sweep_store)\<rparr>"
  have h: "cleanupOldJobs False 25200000 sweep_store = (?s', [1])"
    by (simp add: cleanupOldJobs_def sweep_store_def delete_where_def sixHoursAgo_def)
  have m: "rows sweep_store ! 1 \<in> set (rows sweep_store)"
    and p: "status (rows sweep_store ! 1) = Processing"
    by (simp_all add: sweep_store_def)
  from sweep_deletes_old_terminal_jobs [OF h]
  have keep: "\<forall>j \<in> set (rows sweep_store).
                status j = Pending \<or> status j = Processing \<longrightarrow> j \<in> set (rows ?s')"
    and again: "\<forall>now'. now' \<le> 25200000 \<longrightarrow> cleanupOldJobs False now' ?s' = (?s', [])"
    by blast+
  from keep m p have "rows sweep_store ! 1 \<in> set (rows ?s')" by blast
  moreover from again have "cleanupOldJobs False 25200000 ?s' = (?s', [])" by simp
  ultimately show ?thesis using h p by simp
qed

section \<open>The retry loop\<close>

lemma worker_loop_2:
  "worker_loop p ups 2 =
     (case worker_attempt p (ups 2) of
        None \<Rightarrow> \<lparr>outcome = Never, waits = [4000], fetches = 1\<rparr>
      | Some (Inl e) \<Rightarrow> \<lparr>outcome = Threw e, waits = [4000], fetches = 1\<rparr>
      | Some (Inr v) \<Rightarrow> \<lparr>outcome = Got v, waits = [4000], fetches = 1\<rparr>)"
  by (subst worker_loop.simps) (simp add: maxRetries_def split: option.splits sum.splits)

lemma worker_loop_1:
  "worker_loop p ups (Suc 0) =
     (case worker_attempt p (ups (Suc 0)) of
        None \<Rightarrow> \<lparr>outcome = Never, waits = [2000], fetches = 1\<rparr>
      | Some (Inl e) \<Rightarrow>
          (let r = worker_loop p ups 2 in r\<lparr>waits := 2000 # waits r, fetches := 1 + fetches r\<rparr>)
      | Some (Inr v) \<Rightarrow> \<lparr>outcome = Got v, waits = [2000], fetches = 1\<rparr>)"
  by (subst worker_loop.simps) (simp add: maxRetries_def numeral_2_eq_2[symmetric] split: option.splits sum.splits)

lemma worker_loop_0:
  "worker_loop p ups 0 =
     (case worker_attempt p (ups 0) of
        None \<Rightarrow> \<lparr>outcome = Never, waits = [], fetches = 1\<rparr>
      | Some (Inl e) \<Rightarrow>
          (let r = worker_loop p ups (Suc 0) in r\<lparr>fetches := 1 + fetches r\<rparr>)
      | Some (Inr v) \<Rightarrow> \<lparr>outcome = Got v, waits = [], fetches = 1\<rparr>)"
  by (subst worker_loop.simps) (simp add: maxRetries_def split: option.splits sum.splits)

lemma worker_loop_budget:
  "fetches (worker_loop p ups 0) \<le> 3 \<and>
   waits (worker_loop p ups 0) = take (fetches (worker_loop p ups 0) - 1) [2000, 4000]"
  by (simp add: worker_loop_0 worker_loop_1 worker_loop_2 Let_def split: option.splits sum.splits)

lemma worker_loop_Threw:
  "outcome (worker_loop p ups 0) = Threw e \<Longrightarrow>
     fetches (worker_loop p ups 0) = 3 \<and> worker_attempt p (ups 2) = Some (Inl e) \<and>
     (\<exists>e0 e1. worker_attempt p (ups 0) = Some (Inl e0) \<and> worker_attempt p (ups 1) = Some (Inl e1))"
  by (auto simp add: worker_loop_0 worker_loop_1 worker_loop_2 Let_def split: option.splits sum.splits)

lemma worker_loop_third:
  "worker_attempt p (ups 0) = Some (Inl e0) \<Longrightarrow> worker_attempt p (ups 1) = Some (Inl e1) \<Longrightarrow>
   worker_loop p ups 0 =
     (case worker_attempt p (ups 2) of
        None \<Rightarrow> \<lparr>outcome = Never, waits = [2000, 4000], fetches = 3\<rparr>
      | Some (Inl e) \<Rightarrow> \<lparr>outcome = Threw e, waits = [2000, 4000], fetches = 3\<rparr>
      | Some (Inr v) \<Rightarrow> \<lparr>outcome = Got v, waits = [2000, 4000], fetches = 3\<rparr>)"
  by (simp add: worker_loop_0 worker_loop_1 worker_loop_2 Let_def split: option.splits sum.splits)

section \<open>The request\<close>

lemma build_request_Inr:
  "getOpenRouterApiKey p = Some key \<Longrightarrow> get_prop (input_data j) (lit ''max_tokens'') = Inr mt \<Longrightarrow>
   stringifies (js_or mt (Num 4000)) \<Longrightarrow>
   \<exists>ms. get_prop (input_data j) (lit ''messages'') = Inr ms \<and>
     build_request p j =
       Inr (key, \<lparr>model = step_model p (toUpperCase p (job_type j)), messages = ms,
                  max_tokens = js_or mt (Num 4000),
                  temperature = step_temperature p (toUpperCase p (job_type j))\<rparr>)"
  by (cases "input_data j") (auto simp: build_request_def Let_def)

lemma process_phase_upstream:
  "build_request (w_platform env) j = Inr req \<Longrightarrow>
   process_phase env j s = process_phase (env\<lparr>w_upstream := \<lambda>r. w_upstream env req\<rparr>) j s"
  by (simp add: process_phase_def record_failure_def split: loop_end.splits sum.splits option.splits)

lemma build_request_ceiling:
  "build_request p j = Inr (k, rb) \<Longrightarrow>
   \<exists>mt. get_prop (input_data j) (lit ''max_tokens'') = Inr mt \<and>
        max_tokens rb = (if truthy mt then mt else Num 4000)"
  by (auto simp: build_request_def Let_def js_or_def split: option.splits sum.splits if_splits)

text \<open>
  C10: every request that a run builds has as \<^verbatim>\<open>max_tokens\<close> the value of
  \<^verbatim>\<open>input_data.max_tokens\<close> if that is truthy and 4000 otherwise (a missing field reads
  as undefined). A request is built when the API key is set, \<^verbatim>\<open>input_data\<close> can be read and
  the ceiling can be printed in the log line (as every number, string and boolean can),
  and it is the request that every round of the run presents to the upstream.
\<close>

theorem worker_request_token_ceiling:
  "(\<forall>k rb. build_request (w_platform env) j = Inr (k, rb) \<longrightarrow>
      (\<exists>mt. get_prop (input_data j) (lit ''max_tokens'') = Inr mt \<and>
            max_tokens rb = (if truthy mt then mt else Num 4000)))
   \<and> (getOpenRouterApiKey (w_platform env) = Some key \<and>
       get_prop (input_data j) (lit ''max_tokens'') = Inr mt \<and>
       stringifies (if truthy mt then mt else Num 4000) \<longrightarrow>
       (\<exists>rb. build_request (w_platform env) j = Inr (key, rb)
            \<and> max_tokens rb = (if truthy mt then mt else Num 4000)
            \<and> process_phase env j s =
                process_phase (env\<lparr>w_upstream := \<lambda>r. w_upstream env (key, rb)\<rparr>) j s))"
proof (intro conjI allI impI)
  fix k rb assume "build_request (w_platform env) j = Inr (k, rb)"
  then show "\<exists>mt. get_prop (input_data j) (lit ''max_tokens'') = Inr mt \<and>
            max_tokens rb = (if truthy mt then mt else Num 4000)"
    by (rule build_request_ceiling)
next
  assume a: "getOpenRouterApiKey (w_platform env) = Some key \<and>
       get_prop (input_data j) (lit ''max_tokens'') = Inr mt \<and>
       stringifies (if truthy mt then mt else Num 4000)"
  then have "stringifies (js_or mt (Num 4000))" by (simp add: js_or_def)
  with a build_request_Inr [of "w_platform env" key j mt] obtain rb
    where b: "build_request (w_platform env) j = Inr (key, rb)"
      and m: "max_tokens rb = js_or mt (Num 4000)"
    by auto
  from process_phase_upstream [OF b] m b
  show "\<exists>rb. build_request (w_platform env) j = Inr (key, rb)
            \<and> max_tokens rb = (if truthy mt then mt else Num 4000)
            \<and> process_phase env j s =
                process_phase (env\<lparr>w_upstream := \<lambda>r. w_upstream env (key, rb)\<rparr>) j s"
    by (auto simp: js_or_def)
qed

theorem worker_request_token_ceiling_witness:
  "(\<exists>rb. build_request node hello_job = Inr (lit ''sk-or-v1'', rb) \<and> max_tokens rb = Num 4000) \<and>
   (\<exists>rb. build_request node capped_job = Inr (lit ''sk-or-v1'', rb) \<and> max_tokens rb = Num 8000)"
proof -
  have k: "getOpenRouterApiKey (w_platform flaky_env) = Some (lit ''sk-or-v1'')"
    by (simp add: flaky_env_def node_api_key)
  have a: "get_prop (input_data hello_job) (lit ''max_tokens'') = Inr Undefined"
    by (simp add: hello_job_def)
  have b: "get_prop (input_data capped_job) (lit ''max_tokens'') = Inr (Num 8000)"
    by (simp add: capped_job_def hello_job_def)
  have p: "w_platform flaky_env = node" by (simp add: flaky_env_def)
  have c: "stringifies (if truthy Undefined then Undefined else Num 4000)"
          "stringifies (if truthy (Num 8000) then Num 8000 else Num 4000)"
    by simp_all
  from worker_request_token_ceiling [of flaky_env hello_job "lit ''sk-or-v1''" Undefined claimed_store]
       worker_request_token_ceiling [of flaky_env capped_job "lit ''sk-or-v1''" "Num 8000" claimed_store]
       k a b c
  show ?thesis unfolding p by auto
qed

text \<open>The proxy endpoint computes the ceiling of its request in the same way.\<close>

lemma proxy_request_token_ceiling:
  assumes "get_prop body (lit ''step'') = Inr (Str st)" and "st \<noteq> []"
      and "get_prop body (lit ''messages'') = Inr ms"
      and "get_prop body (lit ''max_tokens'') = Inr mt"
      and "getOpenRouterApiKey p = Some key"
      and "stringifies (if truthy mt then mt else Num 4000)"
  shows "post_chat_completions p ups body =
           proxy_loop p
             (ups (key, \<lparr>model = step_model p (toUpperCase p st), messages = ms,
                          max_tokens = (if truthy mt then mt else Num 4000),
                          temperature = step_temperature p (toUpperCase p st)\<rparr>)) 0"
  using assms by (simp add: post_chat_completions_def and_then_def js_or_def Let_def)

section \<open>Short responses\<close>

lemma worker_attempt_short:
  "length body < 500 \<Longrightarrow>
   worker_attempt p (Responds t st (Inr body)) =
     Some (Inl (if 200 \<le> st \<and> st \<le> 299 then too_short (length body) else api_error st body))"
  by (simp add: worker_attempt_def ok_def)

lemma worker_attempt_long:
  "500 \<le> length body \<Longrightarrow> 200 \<le> st \<Longrightarrow> st \<le> 299 \<Longrightarrow>
   worker_attempt p (Responds t st (Inr body)) = Some (read_completion p body)"
  by (simp add: worker_attempt_def ok_def)

lemma worker_loop_retry:
  "worker_attempt p (ups r) = Some (Inl e) \<Longrightarrow> r + 1 < maxRetries \<Longrightarrow>
   outcome (worker_loop p ups r) = outcome (worker_loop p ups (r + 1)) \<and>
   fetches (worker_loop p ups r) = 1 + fetches (worker_loop p ups (r + 1))"
  by (subst worker_loop.simps, subst (3) worker_loop.simps) (simp add: Let_def)

lemma worker_loop_give_up:
  "worker_attempt p (ups r) = Some (Inl e) \<Longrightarrow> r < maxRetries \<Longrightarrow> maxRetries \<le> r + 1 \<Longrightarrow>
   outcome (worker_loop p ups r) = Threw e"
  by (subst worker_loop.simps) (simp add: Let_def)

lemma proxy_attempt_short:
  "length body < 500 \<Longrightarrow> 200 \<le> st \<Longrightarrow> st \<le> 299 \<Longrightarrow> t < 300000 - d \<Longrightarrow>
   proxy_attempt p d (Responds t st (Inr body)) = Some (Inl (too_short (length body)))"
  by (simp add: proxy_attempt_def ok_def)

lemma proxy_attempt_short_no_json:
  "length body < 500 \<Longrightarrow> proxy_attempt p d (Responds t st (Inr body)) \<noteq> Some (Inr (Reply_json data))"
  by (simp add: proxy_attempt_def)

lemma proxy_attempt_long:
  "500 \<le> length body \<Longrightarrow> 200 \<le> st \<Longrightarrow> st \<le> 299 \<Longrightarrow> t < 300000 - d \<Longrightarrow>
   proxy_attempt p d (Responds t st (Inr body)) =
     Some (case proxy_parse p body of Inl e \<Rightarrow> Inl e | Inr data \<Rightarrow> Inr (Reply_json data))"
  by (simp add: proxy_attempt_def ok_def)

lemma proxy_loop_retry:
  "proxy_attempt p (if r > 0 then 2 ^ r * 1000 else 0) (ups r) = Some (Inl e) \<Longrightarrow>
   err_name e \<noteq> lit ''AbortError'' \<Longrightarrow> r + 1 < maxRetries \<Longrightarrow>
   proxy_loop p ups r = proxy_loop p ups (r + 1)"
  by (subst proxy_loop.simps) simp

lemma too_short_name: "err_name (too_short n) \<noteq> lit ''AbortError''"
  by (simp add: too_short_def new_Error_def)

text \<open>
  C7: a response whose body has fewer than 500 characters is never accepted. In the
  worker the attempt throws, with status 2xx the "Response too short" error; in the
  first two rounds the loop goes on to the next round, in the third the error leaves
  the loop. A body of 500 characters or more with status 2xx goes on to be parsed. The
  loop of the proxy endpoint does the same with a response that arrives before its
  timer fires: it never replies with the data of a short body, retries a short body of
  status 2xx, and parses a long one.
\<close>

theorem short_body_is_retried:
  "(length body < 500 \<longrightarrow>
      (\<exists>e. worker_attempt p (Responds t st (Inr body)) = Some (Inl e) \<and>
           (200 \<le> st \<and> st \<le> 299 \<longrightarrow> e = too_short (length body)) \<and>
           (\<forall>ups r. ups r = Responds t st (Inr body) \<longrightarrow>
              (r < 2 \<longrightarrow> outcome (worker_loop p ups r) = outcome (worker_loop p ups (r + 1)) \<and>
                        fetches (worker_loop p ups r) = 1 + fetches (worker_loop p ups (r + 1))) \<and>
              (r = 2 \<longrightarrow> outcome (worker_loop p ups r) = Threw e))))
   \<and> (500 \<le> length body \<and> 200 \<le> st \<and> st \<le> 299 \<longrightarrow>
        worker_attempt p (Responds t st (Inr body)) = Some (read_completion p body))
   \<and> (length body < 500 \<longrightarrow>
        (\<forall>d data. proxy_attempt p d (Responds t st (Inr body)) \<noteq> Some (Inr (Reply_json data))) \<and>
        (\<forall>ups r. r < 2 \<and> 200 \<le> st \<and> st \<le> 299 \<and> t < 300000 - (if r > 0 then 2 ^ r * 1000 else 0) \<and>
                 ups r = Responds t st (Inr body) \<longrightarrow>
           proxy_attempt p (if r > 0 then 2 ^ r * 1000 else 0) (ups r) =
             Some (Inl (too_short (length body))) \<and>
           proxy_loop p ups r = proxy_loop p ups (r + 1)))
   \<and> (500 \<le> length body \<and> 200 \<le> st \<and> st \<le> 299 \<and> t < 300000 - d \<longrightarrow>
        proxy_attempt p d (Responds t st (Inr body)) =
          Some (case proxy_parse p body of Inl e \<Rightarrow> Inl e | Inr data \<Rightarrow> Inr (Reply_json data)))"
proof (intro conjI impI)
  assume short: "length body < 500"
  let ?e = "if 200 \<le> st \<and> st \<le> 299 then too_short (length body) else api_error st body"
  have a: "worker_attempt p (Responds t st (Inr body)) = Some (Inl ?e)"
    by (rule worker_attempt_short [OF short])
  have "\<forall>ups r. ups r = Responds t st (Inr body) \<longrightarrow>
              (r < 2 \<longrightarrow> outcome (worker_loop p ups r) = outcome (worker_loop p ups (r + 1)) \<and>
                        fetches (worker_loop p ups r) = 1 + fetches (worker_loop p ups (r + 1))) \<and>
              (r = 2 \<longrightarrow> outcome (worker_loop p ups r) = Threw ?e)"
  proof (intro allI impI conjI)
    fix ups :: "nat \<Rightarrow> upstream" and r :: nat
    assume u: "ups r = Responds t st (Inr body)"
    then have w: "worker_attempt p (ups r) = Some (Inl ?e)" using a by simp
    { assume "r < 2"
      then have "r + 1 < maxRetries" by (simp add: maxRetries_def)
      from worker_loop_retry [of p ups r, OF w this]
      show "outcome (worker_loop p ups r) = outcome (worker_loop p ups (r + 1))"
        and "fetches (worker_loop p ups r) = 1 + fetches (worker_loop p ups (r + 1))"
        by simp_all }
    { assume "r = 2"
      then have "r < maxRetries" "maxRetries \<le> r + 1" by (simp_all add: maxRetries_def)
      from worker_loop_give_up [of p ups r, OF w this]
      show "outcome (worker_loop p ups r) = Threw ?e" . }
  qed
  with a show "\<exists>e. worker_attempt p (Responds t st (Inr body)) = Some (Inl e) \<and>
           (200 \<le> st \<and> st \<le> 299 \<longrightarrow> e = too_short (length body)) \<and>
           (\<forall>ups r. ups r = Responds t st (Inr body) \<longrightarrow>
              (r < 2 \<longrightarrow> outcome (worker_loop p ups r) = outcome (worker_loop p ups (r + 1)) \<and>
                        fetches (worker_loop p ups r) = 1 + fetches (worker_loop p ups (r + 1))) \<and>
              (r = 2 \<longrightarrow> outcome (worker_loop p ups r) = Threw e))"
    by (intro exI [of _ ?e]) simp
next
  assume "500 \<le> length body \<and> 200 \<le> st \<and> st \<le> 299"
  then show "worker_attempt p (Responds t st (Inr body)) = Some (read_completion p body)"
    by (simp add: worker_attempt_long)
next
  assume short: "length body < 500"
  show "\<forall>d data. proxy_attempt p d (Responds t st (Inr body)) \<noteq> Some (Inr (Reply_json data))"
    using proxy_attempt_short_no_json [OF short] by blast
  show "\<forall>ups r. r < 2 \<and> 200 \<le> st \<and> st \<le> 299 \<and> t < 300000 - (if r > 0 then 2 ^ r * 1000 else 0) \<and>
                 ups r = Responds t st (Inr body) \<longrightarrow>
           proxy_attempt p (if r > 0 then 2 ^ r * 1000 else 0) (ups r) =
             Some (Inl (too_short (length body))) \<and>
           proxy_loop p ups r = proxy_loop p ups (r + 1)"
  proof (intro allI impI)
    fix ups :: "nat \<Rightarrow> upstream" and r :: nat
    let ?d = "if r > 0 then 2 ^ r * 1000 else (0::nat)"
    assume a: "r < 2 \<and> 200 \<le> st \<and> st \<le> 299 \<and> t < 300000 - ?d \<and> ups r = Responds t st (Inr body)"
    then have 1: "proxy_attempt p ?d (ups r) = Some (Inl (too_short (length body)))"
      using proxy_attempt_short [OF short, of st t ?d p] by simp
    from a have "r + 1 < maxRetries" by (simp add: maxRetries_def)
    from proxy_loop_retry [of p r ups, OF 1 too_short_name this] 1
    show "proxy_attempt p ?d (ups r) = Some (Inl (too_short (length body))) \<and>
          proxy_loop p ups r = proxy_loop p ups (r + 1)" by simp
  qed
next
  assume "500 \<le> length body \<and> 200 \<le> st \<and> st \<le> 299 \<and> t < 300000 - d"
  then show "proxy_attempt p d (Responds t st (Inr body)) =
          Some (case proxy_parse p body of Inl e \<Rightarrow> Inl e | Inr data \<Rightarrow> Inr (Reply_json data))"
    by (simp add: proxy_attempt_long)
qed

theorem short_body_is_retried_witness:
  "length tiny_body < 500 \<and>
   worker_attempt node (Responds 800 200 (Inr tiny_body)) = Some (Inl (too_short 10)) \<and>
   500 \<le> length good_body \<and>
   worker_attempt node (Responds 800 200 (Inr good_body)) = Some (Inr (Str (lit ''An evaluation plan'')))"
proof -
  from short_body_is_retried [of tiny_body node 800 200]
  have "\<exists>e. worker_attempt node (Responds 800 200 (Inr tiny_body)) = Some (Inl e) \<and>
             e = too_short (length tiny_body)"
    by (auto simp: length_tiny_body)
  moreover from short_body_is_retried [of good_body node 800 200]
  have "worker_attempt node (Responds 800 200 (Inr good_body)) = Some (read_completion node good_body)"
    by (simp add: length_good_body)
  ultimately show ?thesis
    by (simp add: length_tiny_body length_good_body node_reads_good_body)
qed

section \<open>Outcome of a run\<close>

lemma process_phase_Threw:
  "build_request (w_platform env) j = Inr req \<Longrightarrow>
   outcome (worker_loop (w_platform env) (w_upstream env req) 0) = Threw e \<Longrightarrow>
   process_phase env j s = (record_failure env j e s, True)"
  by (simp add: process_phase_def)

lemma process_phase_Got:
  "build_request (w_platform env) j = Inr req \<Longrightarrow>
   outcome (worker_loop (w_platform env) (w_upstream env req) 0) = Got v \<Longrightarrow>
   get_prop v (lit ''length'') = Inr n \<Longrightarrow> stringifies n \<Longrightarrow>
   complete_query_error env = None \<Longrightarrow>
   process_phase env j s =
     (update_completed (pg_param (w_platform env) v) (w_clock env) (job_id j) s, True)"
  by (simp add: process_phase_def)

lemma update_failed_row:
  assumes "k \<in> set (rows (update_failed err now i s))" and "job_id k = i"
  shows "status k = Failed \<and> error k = err \<and> completed_at k = Some now"
proof -
  from assms(1) obtain x where x: "x \<in> set (rows s)"
    and k: "k = (if job_id x = i then x\<lparr>status := Failed, error := err, completed_at := Some now\<rparr> else x)"
    unfolding update_failed_def by auto
  show ?thesis
  proof (cases "job_id x = i")
    case True
    with k show ?thesis by simp
  next
    case False
    with k assms(2) show ?thesis by simp
  qed
qed

lemma update_completed_row:
  assumes "k \<in> set (rows (update_completed res now i s))" and "job_id k = i"
  shows "status k = Completed \<and> result_data k = res \<and> completed_at k = Some now"
proof -
  from assms(1) obtain x where x: "x \<in> set (rows s)"
    and k: "k = (if job_id x = i then x\<lparr>status := Completed, result_data := res, completed_at := Some now\<rparr> else x)"
    unfolding update_completed_def by auto
  show ?thesis
  proof (cases "job_id x = i")
    case True
    with k show ?thesis by simp
  next
    case False
    with k assms(2) show ?thesis by simp
  qed
qed

text \<open>
  C5: a run that has built its request calls fetch at most 3 times; it sleeps nothing
  before the first call, 2000 ms before the second and 4000 ms before the third; when
  the loop throws, three calls were made, the error is the one of the third, and
  (unless the failing UPDATE throws) the job is failed with the message of that error;
  when two rounds fail and the third yields a text, then (unless the completing UPDATE
  throws) the job is completed with that text.
\<close>

theorem three_attempts_with_backoff:
  assumes req: "build_request (w_platform env) j = Inr req"
      and r: "r = worker_loop (w_platform env) (w_upstream env req) 0"
      and att: "att = (\<lambda>n. worker_attempt (w_platform env) (w_upstream env req n))"
  shows "fetches r \<le> 3
       \<and> waits r = take (fetches r - 1) [2000, 4000]
       \<and> (\<forall>e. outcome r = Threw e \<longrightarrow>
             fetches r = 3 \<and> att 2 = Some (Inl e) \<and>
             (\<not> fail_query_fails env \<longrightarrow>
                process_phase env j s =
                  (update_failed (Some (message e)) (w_clock env) (job_id j) s, True) \<and>
                (\<forall>k \<in> set (rows (fst (process_phase env j s))).
                   job_id k = job_id j \<longrightarrow> status k = Failed \<and> error k = Some (message e))))
       \<and> (\<forall>e0 e1 content.
             att 0 = Some (Inl e0) \<and> att 1 = Some (Inl e1) \<and> att 2 = Some (Inr (Str content)) \<and>
             complete_query_error env = None \<longrightarrow>
               fetches r = 3 \<and> waits r = [2000, 4000] \<and>
               process_phase env j s =
                 (update_completed (Some content) (w_clock env) (job_id j) s, True) \<and>
               (\<forall>k \<in> set (rows (fst (process_phase env j s))).
                  job_id k = job_id j \<longrightarrow> status k = Completed \<and> result_data k = Some content))"
proof (intro conjI allI impI ballI)
  show "fetches r \<le> 3" and "waits r = take (fetches r - 1) [2000, 4000]"
    unfolding r using worker_loop_budget by blast+
next
  fix e assume t: "outcome r = Threw e"
  from worker_loop_Threw [OF t [unfolded r]]
  show "fetches r = 3" and "att 2 = Some (Inl e)" unfolding r att by blast+
  assume "\<not> fail_query_fails env"
  with process_phase_Threw [OF req t [unfolded r]]
  show u: "process_phase env j s =
          (update_failed (Some (message e)) (w_clock env) (job_id j) s, True)"
    by (simp add: record_failure_def)
  fix k assume "k \<in> set (rows (fst (process_phase env j s)))" and "job_id k = job_id j"
  with update_failed_row [of k "Some (message e)" "w_clock env" "job_id j" s]
  show "status k = Failed" and "error k = Some (message e)" unfolding u by simp_all
next
  fix e0 e1 content
  assume a: "att 0 = Some (Inl e0) \<and> att 1 = Some (Inl e1) \<and> att 2 = Some (Inr (Str content)) \<and>
             complete_query_error env = None"
  then have l: "r = \<lparr>outcome = Got (Str content), waits = [2000, 4000], fetches = 3\<rparr>"
    unfolding r att
    using worker_loop_third [of "w_platform env" "w_upstream env req" e0 e1] by simp
  then show "fetches r = 3" and "waits r = [2000, 4000]" by simp_all
  from l have "outcome (worker_loop (w_platform env) (w_upstream env req) 0) = Got (Str content)"
    unfolding r by simp
  moreover have "get_prop (Str content) (lit ''length'') = Inr (Num (of_nat (length content)))"
    by simp
  moreover have "stringifies (Num (of_nat (length content)))" by simp
  moreover from a have "complete_query_error env = None" by simp
  ultimately show u: "process_phase env j s =
          (update_completed (Some content) (w_clock env) (job_id j) s, True)"
    using process_phase_Got [OF req, of "Str content" _ s] by (simp add: pg_param_def)
  fix k assume "k \<in> set (rows (fst (process_phase env j s)))" and "job_id k = job_id j"
  with update_completed_row [of k "Some content" "w_clock env" "job_id j" s]
  show "status k = Completed" and "result_data k = Some content" unfolding u by simp_all
qed

theorem three_attempts_with_backoff_witness:
  "build_request (w_platform flaky_env) hello_job = Inr hello_request \<and>
   waits (worker_loop node (w_upstream flaky_env hello_request) 0) = [2000, 4000] \<and>
   process_phase flaky_env hello_job claimed_store =
     (update_completed (Some (lit ''An evaluation plan'')) 7000000 1 claimed_store, True) \<and>
   outcome (worker_loop node (w_upstream down_env hello_request) 0) =
     Threw (api_error 503 (lit ''Service Unavailable'')) \<and>
   fetches (worker_loop node (w_upstream down_env hello_request) 0) = 3 \<and>
   process_phase down_env hello_job claimed_store =
     (update_failed (Some (message (api_error 503 (lit ''Service Unavailable'')))) 7000000 1
        claimed_store, True)"
proof -
  have p: "w_platform flaky_env = node" "w_platform down_env = node"
    by (simp_all add: flaky_env_def down_env_def)
  have q: "build_request (w_platform flaky_env) hello_job = Inr hello_request"
          "build_request (w_platform down_env) hello_job = Inr hello_request"
    by (simp_all add: p node_hello_request)
  have c: "complete_query_error flaky_env = None" "w_clock flaky_env = 7000000"
          "\<not> fail_query_fails down_env" "w_clock down_env = 7000000" "job_id hello_job = 1"
    by (simp_all add: flaky_env_def down_env_def hello_job_def)
  from three_attempts_with_backoff [OF q(1) refl refl, of claimed_store] flaky_rounds c
  have 1: "waits (worker_loop node (w_upstream flaky_env hello_request) 0) = [2000, 4000] \<and>
       process_phase flaky_env hello_job claimed_store =
         (update_completed (Some (lit ''An evaluation plan'')) 7000000 1 claimed_store, True)"
    unfolding p by simp
  have t: "outcome (worker_loop node (w_upstream down_env hello_request) 0) =
            Threw (api_error 503 (lit ''Service Unavailable''))"
    using worker_loop_third [of node "w_upstream down_env hello_request", OF down_rounds down_rounds]
    by (simp add: down_rounds)
  from three_attempts_with_backoff [OF q(2) refl refl, of claimed_store] t c
  have 2: "fetches (worker_loop node (w_upstream down_env hello_request) 0) = 3 \<and>
      process_phase down_env hello_job claimed_store =
     (update_failed (Some (message (api_error 503 (lit ''Service Unavailable'')))) 7000000 1
        claimed_store, True)"
    unfolding p by simp
  from q(1) 1 t 2 show ?thesis by simp
qed

section \<open>Submission\<close>

text \<open>
  C4, as stated, fails: a request whose \<^verbatim>\<open>input_data.messages\<close> is the empty array is
  accepted, and a pending row is inserted for it.
\<close>

theorem empty_messages_accepted_counterexample:
  "post_jobs False 500 no_messages_body empty_store =
     (Created 1 Pending 500,
      \<lparr>rows = [\<lparr>job_id = 1, job_type = lit ''prompt1'', status = Pending,
                input_data = Obj [(lit ''messages'', Arr [])],
                result_data = None, error = None, created_at = 500, completed_at = None\<rparr>],
       next_id = 2\<rparr>)"
  by (simp add: post_jobs_def no_messages_body_def empty_store_def known_job_types_def insert_job_def Let_def)

lemma get_prop_Arr_Obj:
  "get_prop inp (lit ''messages'') = Inr (Arr ms) \<Longrightarrow> \<exists>kvs. inp = Obj kvs"
  by (cases inp) (auto split: if_splits)

text \<open>
  C4, amended: the handler answers 400 and leaves the table as it is whenever
  \<^verbatim>\<open>job_type\<close> is no recognized type, or \<^verbatim>\<open>input_data\<close> is missing or no object, or
  \<^verbatim>\<open>input_data.messages\<close> is missing, null or another falsy value. When \<^verbatim>\<open>job_type\<close> is
  recognized and \<^verbatim>\<open>input_data.messages\<close> is an array, empty or not, and the INSERT
  succeeds, it appends exactly one row, with status pending. When the INSERT fails no
  row is added.
\<close>

theorem submit_validation:
  assumes jt: "get_prop body (lit ''job_type'') = Inr jt"
      and inp: "get_prop body (lit ''input_data'') = Inr inp"
  shows "(((\<forall>t. jt = Str t \<longrightarrow> t \<notin> set known_job_types) \<or> \<not> truthy inp \<or> \<not> typeof_object inp \<or>
           (\<exists>ms. get_prop inp (lit ''messages'') = Inr ms \<and> \<not> truthy ms))
          \<longrightarrow> (\<exists>m. post_jobs f now body s = (Bad_Request m, s)))
       \<and> (\<forall>t ms. jt = Str t \<and> t \<in> set known_job_types \<and>
                  get_prop inp (lit ''messages'') = Inr (Arr ms) \<and> \<not> f \<longrightarrow>
            post_jobs f now body s =
              (Created (next_id s) Pending now,
               \<lparr>rows = rows s @
                   [\<lparr>job_id = next_id s, job_type = t, status = Pending, input_data = inp,
                     result_data = None, error = None, created_at = now, completed_at = None\<rparr>],
                next_id = Suc (next_id s)\<rparr>))
       \<and> (f \<longrightarrow> snd (post_jobs f now body s) = s)"
proof (intro conjI impI allI)
  assume "(\<forall>t. jt = Str t \<longrightarrow> t \<notin> set known_job_types) \<or> \<not> truthy inp \<or> \<not> typeof_object inp \<or>
           (\<exists>ms. get_prop inp (lit ''messages'') = Inr ms \<and> \<not> truthy ms)"
  then show "\<exists>m. post_jobs f now body s = (Bad_Request m, s)"
    by (cases jt) (auto simp: post_jobs_def jt inp split: sum.splits)
next
  fix t ms
  assume a: "jt = Str t \<and> t \<in> set known_job_types \<and>
                  get_prop inp (lit ''messages'') = Inr (Arr ms) \<and> \<not> f"
  then obtain kvs where "inp = Obj kvs" using get_prop_Arr_Obj by blast
  moreover have "t \<noteq> []" using a by (auto simp: known_job_types_def)
  ultimately show "post_jobs f now body s =
              (Created (next_id s) Pending now,
               \<lparr>rows = rows s @
                   [\<lparr>job_id = next_id s, job_type = t, status = Pending, input_data = inp,
                     result_data = None, error = None, created_at = now, completed_at = None\<rparr>],
                next_id = Suc (next_id s)\<rparr>)"
    using a by (simp add: post_jobs_def jt inp insert_job_def Let_def)
next
  assume f
  then show "snd (post_jobs f now body s) = s"
    by (cases jt) (auto simp: post_jobs_def jt inp insert_job_def split: sum.splits)
qed

theorem submit_validation_witness:
  "(\<exists>m. post_jobs False 500 bogus_body empty_store = (Bad_Request m, empty_store)) \<and>
   post_jobs False 500 hello_body empty_store = (Created 1 Pending 500, one_pending)"
proof -
  have b: "get_prop bogus_body (lit ''job_type'') = Inr (Str (lit ''bogus''))"
          "get_prop bogus_body (lit ''input_data'') = Inr (Obj [(lit ''messages'', hello_messages)])"
    by (simp_all add: bogus_body_def)
  have h: "get_prop hello_body (lit ''job_type'') = Inr (Str (lit ''prompt1''))"
          "get_prop hello_body (lit ''input_data'') = Inr (Obj [(lit ''messages'', hello_messages)])"
    by (simp_all add: hello_body_def)
  have k: "lit ''bogus'' \<notin> set known_job_types" "lit ''prompt1'' \<in> set known_job_types"
    by (simp_all add: known_job_types_def)
  have m: "get_prop (Obj [(lit ''messages'', hello_messages)]) (lit ''messages'') =
             Inr (Arr [Obj [(lit ''role'', Str (lit ''user'')), (lit ''content'', Str (lit ''hello''))]])"
    by (simp add: hello_messages_def)
  from submit_validation [OF b, of False 500 empty_store] k
  have 1: "\<exists>m. post_jobs False 500 bogus_body empty_store = (Bad_Request m, empty_store)"
    by simp
  from submit_validation [OF h, of False 500 empty_store]
  have "\<forall>t ms. Str (lit ''prompt1'') = Str t \<and> t \<in> set known_job_types \<and>
                  get_prop (Obj [(lit ''messages'', hello_messages)]) (lit ''messages'') = Inr (Arr ms) \<and>
                  \<not> False \<longrightarrow>
            post_jobs False 500 hello_body empty_store =
              (Created (next_id empty_store) Pending 500,
               \<lparr>rows = rows empty_store @
                   [\<lparr>job_id = next_id empty_store, job_type = t, status = Pending,
                     input_data = Obj [(lit ''messages'', hello_messages)],
                     result_data = None, error = None, created_at = 500, completed_at = None\<rparr>],
                next_id = Suc (next_id empty_store)\<rparr>)"
    by blast
  from this [rule_format, of "lit ''prompt1''"
               "[Obj [(lit ''role'', Str (lit ''user'')), (lit ''content'', Str (lit ''hello''))]]"] k m
  have 2: "post_jobs False 500 hello_body empty_store = (Created 1 Pending 500, one_pending)"
    by (simp add: empty_store_def one_pending_def hello_job_def)
  from 1 2 show ?thesis by simp
qed

section \<open>The claim\<close>

lemma sort_key_head:
  assumes "sort_key f xs = j # rest"
  shows "j \<in> set xs \<and> (\<forall>k \<in> set xs. f j \<le> f k)"
proof -
  have "set (sort_key f xs) = set xs" by simp
  with assms have s: "set xs = insert j (set rest)" by simp
  have "sorted (map f (sort_key f xs))" by (rule sorted_sort_key)
  with assms have "\<forall>y \<in> set rest. f j \<le> f y" by simp
  with s show ?thesis by auto
qed

lemma select_next_pending_None:
  "select_next_pending L s = None \<longleftrightarrow> (\<forall>k \<in> set (rows s). status k = Pending \<longrightarrow> job_id k \<in> L)"
proof -
  let ?c = "filter (\<lambda>j. status j = Pending \<and> job_id j \<notin> L) (rows s)"
  have "select_next_pending L s = None \<longleftrightarrow> sort_key created_at ?c = []"
    by (simp add: select_next_pending_def split: list.splits)
  also have "\<dots> \<longleftrightarrow> set (sort_key created_at ?c) = {}" by (simp only: set_empty)
  also have "\<dots> \<longleftrightarrow> set ?c = {}" by simp
  also have "\<dots> \<longleftrightarrow> (\<forall>k \<in> set (rows s). status k = Pending \<longrightarrow> job_id k \<in> L)"
    by (auto simp: filter_empty_conv)
  finally show ?thesis .
qed

lemma select_next_pending_Some:
  assumes "select_next_pending L s = Some j"
  shows "j \<in> set (rows s) \<and> status j = Pending \<and> job_id j \<notin> L \<and>
         (\<forall>k \<in> set (rows s). status k = Pending \<and> job_id k \<notin> L \<longrightarrow> created_at j \<le> created_at k)"
proof -
  let ?c = "filter (\<lambda>j. status j = Pending \<and> job_id j \<notin> L) (rows s)"
  from assms obtain rest where "sort_key created_at ?c = j # rest"
    by (auto simp: select_next_pending_def split: list.splits)
  from sort_key_head [OF this] show ?thesis by auto
qed

lemma update_by_id_distinct:
  assumes "distinct (map job_id js)" and "j \<in> set js"
  shows "map (\<lambda>k. if job_id k = job_id j then g k else k) js = map (\<lambda>k. if k = j then g j else k) js"
proof (rule map_cong [OF refl])
  fix k assume "k \<in> set js"
  with assms have "job_id k = job_id j \<longleftrightarrow> k = j"
    by (auto simp: distinct_map inj_on_def)
  then show "(if job_id k = job_id j then g k else k) = (if k = j then g j else k)" by auto
qed

text \<open>
  C8: when the transaction succeeds on a table with distinct ids, the claim returns no
  job exactly when every pending row is locked by another transaction (none is, without
  concurrent claims), and then changes nothing; otherwise it returns a pending, unlocked
  row whose \<^verbatim>\<open>created_at\<close> is least among the pending, unlocked rows, and the table
  afterwards differs in this one row, whose status is processing.
\<close>

theorem claim_takes_oldest_pending:
  assumes ok: "\<not> claim_tx_fails env" and d: "distinct (map job_id (rows s))"
  shows "(case claim_phase env s of
            (None, s') \<Rightarrow>
              s' = s \<and> (\<forall>k \<in> set (rows s). status k = Pending \<longrightarrow> job_id k \<in> w_locked env)
          | (Some j, s') \<Rightarrow>
              j \<in> set (rows s) \<and> status j = Pending \<and> job_id j \<notin> w_locked env \<and>
              (\<forall>k \<in> set (rows s). status k = Pending \<and> job_id k \<notin> w_locked env \<longrightarrow>
                 created_at j \<le> created_at k) \<and>
              rows s' = map (\<lambda>k. if k = j then j\<lparr>status := Processing\<rparr> else k) (rows s) \<and>
              next_id s' = next_id s)"
proof (cases "select_next_pending (w_locked env) s")
  case None
  with ok have "claim_phase env s = (None, s)" by (simp add: claim_phase_def)
  with None show ?thesis by (simp add: select_next_pending_None)
next
  case (Some j)
  with ok have c: "claim_phase env s = (Some j, update_processing (job_id j) s)"
    by (simp add: claim_phase_def)
  from select_next_pending_Some [OF Some] have p: "j \<in> set (rows s)" "status j = Pending"
      "job_id j \<notin> w_locked env"
      "\<forall>k \<in> set (rows s). status k = Pending \<and> job_id k \<notin> w_locked env \<longrightarrow> created_at j \<le> created_at k"
    by blast+
  have "rows (update_processing (job_id j) s) =
          map (\<lambda>k. if k = j then j\<lparr>status := Processing\<rparr> else k) (rows s)"
    using update_by_id_distinct [OF d p(1), of "\<lambda>k. k\<lparr>status := Processing\<rparr>"]
    by (simp add: update_processing_def)
  moreover have "next_id (update_processing (job_id j) s) = next_id s"
    by (simp add: update_processing_def)
  ultimately show ?thesis using c p by simp
qed

lemma queue_select: "select_next_pending {} queue_store = Some (hello_job\<lparr>job_id := 3, created_at := 200\<rparr>)"
  by (simp add: select_next_pending_def queue_store_def hello_job_def)

theorem claim_takes_oldest_pending_witness:
  "claim_phase flaky_env queue_store =
     (Some (hello_job\<lparr>job_id := 3, created_at := 200\<rparr>),
      queue_store\<lparr>rows := (rows queue_store)[2 := hello_job\<lparr>job_id := 3, created_at := 200, status := Processing\<rparr>]\<rparr>) \<and>
   claim_phase flaky_env claimed_store = (None, claimed_store)"
proof -
  have f: "\<not> claim_tx_fails flaky_env" "w_locked flaky_env = {}" by (simp_all add: flaky_env_def)
  have d: "distinct (map job_id (rows queue_store))" "distinct (map job_id (rows claimed_store))"
    by (simp_all add: queue_store_def claimed_store_def)
  have 1: "claim_phase flaky_env queue_store =
            (Some (hello_job\<lparr>job_id := 3, created_at := 200\<rparr>), update_processing 3 queue_store)"
    by (simp add: claim_phase_def f queue_select)
  have 2: "claim_phase flaky_env claimed_store = (None, claimed_store)"
    by (simp add: claim_phase_def f select_next_pending_def claimed_store_def hello_job_def)
  from claim_takes_oldest_pending [OF f(1) d(1)] 1
  have "rows (update_processing 3 queue_store) =
          map (\<lambda>k. if k = hello_job\<lparr>job_id := 3, created_at := 200\<rparr>
                    then hello_job\<lparr>job_id := 3, created_at := 200, status := Processing\<rparr> else k)
              (rows queue_store)"
    by simp
  then have "rows (update_processing 3 queue_store) =
     (rows queue_store)[2 := hello_job\<lparr>job_id := 3, created_at := 200, status := Processing\<rparr>]"
    by (simp add: queue_store_def hello_job_def)
  then have "update_processing 3 queue_store = queue_store\<lparr>rows := (rows queue_store)[2 := hello_job\<lparr>job_id := 3, created_at := 200, status := Processing\<rparr>]\<rparr>"
    by (simp add: update_processing_def)
  moreover from claim_takes_oldest_pending [OF f(1) d(2)] 2 have "claim_phase flaky_env claimed_store = (None, claimed_store)"
    by simp
  ultimately show ?thesis using 1 by simp
qed

section \<open>Timeouts\<close>




section \<open>The table under UPDATE\<close>

lemma same_id_same_row:
  "distinct (map job_id js) \<Longrightarrow> j \<in> set js \<Longrightarrow> k \<in> set js \<Longrightarrow> job_id k = job_id j \<Longrightarrow> k = j"
  by (auto simp: distinct_map inj_on_def)

lemma update_where_id_ids:
  assumes "\<And>k. job_id (g k) = job_id k"
  shows "map job_id (update_where_id i g js) = map job_id js"
  unfolding update_where_id_def using assms by (induction js) auto

lemma update_where_id_member:
  assumes "j' \<in> set (update_where_id i g js)"
  obtains k where "k \<in> set js" and "j' = (if job_id k = i then g k else k)"
  using assms unfolding update_where_id_def by auto

lemma update_where_id_image:
  "k \<in> set js \<Longrightarrow> (if job_id k = i then g k else k) \<in> set (update_where_id i g js)"
  unfolding update_where_id_def by auto

lemma update_where_id_absent:
  "i \<notin> job_id ` set js \<Longrightarrow> update_where_id i g js = js"
  unfolding update_where_id_def by (induction js) auto

lemma update_where_id_same_id:
  assumes d: "distinct (map job_id js)" and j: "j \<in> set js"
      and j': "j' \<in> set (update_where_id i g js)" and e: "job_id j' = job_id j"
      and g: "\<And>k. job_id (g k) = job_id k"
  shows "j' = (if job_id j = i then g j else j)"
proof -
  from j' obtain k where k: "k \<in> set js" and eq: "j' = (if job_id k = i then g k else k)"
    by (rule update_where_id_member)
  from eq g have "job_id j' = job_id k" by (cases "job_id k = i") simp_all
  with e have "job_id k = job_id j" by simp
  from same_id_same_row [OF d j k this] eq show ?thesis by simp
qed

lemma rows_update_processing:
  "rows (update_processing i s) = update_where_id i (\<lambda>k. k\<lparr>status := Processing\<rparr>) (rows s)"
  by (simp add: update_processing_def update_where_id_def)

lemma rows_update_completed:
  "rows (update_completed res now i s) =
     update_where_id i (\<lambda>k. k\<lparr>status := Completed, result_data := res, completed_at := Some now\<rparr>) (rows s)"
  by (simp add: update_completed_def update_where_id_def)

lemma rows_update_failed:
  "rows (update_failed err now i s) =
     update_where_id i (\<lambda>k. k\<lparr>status := Failed, error := err, completed_at := Some now\<rparr>) (rows s)"
  by (simp add: update_failed_def update_where_id_def)

lemma next_id_updates [simp]:
  "next_id (update_processing i s) = next_id s"
  "next_id (update_completed res now i s) = next_id s"
  "next_id (update_failed err now i s) = next_id s"
  by (simp_all add: update_processing_def update_completed_def update_failed_def)

lemma store_ok_update:
  assumes ok: "store_ok s" and r: "rows s' = update_where_id i g (rows s)" and n: "next_id s' = next_id s"
      and g: "\<And>k. job_id (g k) = job_id k"
      and h: "\<And>k. k \<in> set (rows s) \<Longrightarrow> job_id k = i \<Longrightarrow> row_ok (g k)"
  shows "store_ok s'"
proof -
  have "map job_id (rows s') = map job_id (rows s)"
    unfolding r by (rule update_where_id_ids) (rule g)
  with ok have d: "distinct (map job_id (rows s'))" by (simp add: store_ok_def)
  have "\<forall>j' \<in> set (rows s'). job_id j' < next_id s' \<and> row_ok j'"
  proof
    fix j' assume "j' \<in> set (rows s')"
    then obtain k where k: "k \<in> set (rows s)" and eq: "j' = (if job_id k = i then g k else k)"
      unfolding r by (rule update_where_id_member)
    from ok k have b: "job_id k < next_id s" "row_ok k" by (simp_all add: store_ok_def)
    show "job_id j' < next_id s' \<and> row_ok j'"
    proof (cases "job_id k = i")
      case True
      with eq have "j' = g k" by simp
      with g [of k] h [OF k True] b n show ?thesis by simp
    next
      case False
      with eq b n show ?thesis by simp
    qed
  qed
  with d show ?thesis by (simp add: store_ok_def)
qed


lemma post_jobs_table:
  "snd (post_jobs f now body s) = s \<or>
   (\<exists>t inp. snd (post_jobs f now body s) = snd (insert_job t inp now s))"
  unfolding post_jobs_def
  by (simp split: sum.splits jsval.splits prod.splits) (metis snd_conv)

lemma rows_insert_job:
  "rows (snd (insert_job t inp now s)) =
     rows s @ [\<lparr>job_id = next_id s, job_type = t, status = Pending, input_data = inp,
                result_data = None, error = None, created_at = now, completed_at = None\<rparr>]"
  "next_id (snd (insert_job t inp now s)) = Suc (next_id s)"
  by (simp_all add: insert_job_def Let_def)

lemma store_ok_insert:
  assumes "store_ok s"
  shows "store_ok (snd (insert_job t inp now s))"
proof -
  let ?n = "\<lparr>job_id = next_id s, job_type = t, status = Pending, input_data = inp,
             result_data = None, error = None, created_at = now, completed_at = None\<rparr>"
  from assms have fresh: "next_id s \<notin> job_id ` set (rows s)" by (auto simp: store_ok_def)
  have "row_ok ?n" by (simp add: row_ok_def)
  with assms fresh show ?thesis
    unfolding store_ok_def rows_insert_job by (auto simp: less_Suc_eq)
qed

lemma claim_phase_cases:
  "claim_phase env s = (None, s) \<or>
   (\<exists>j. claim_phase env s = (Some j, update_processing (job_id j) s) \<and>
        j \<in> set (rows s) \<and> status j = Pending)"
proof (cases "claim_tx_fails env")
  case True
  then show ?thesis by (simp add: claim_phase_def)
next
  case False
  show ?thesis
  proof (cases "select_next_pending (w_locked env) s")
    case None
    with False show ?thesis by (simp add: claim_phase_def)
  next
    case (Some j)
    from select_next_pending_Some [OF Some] Some False show ?thesis
      by (simp add: claim_phase_def)
  qed
qed

lemma pg_param_defined: "v \<noteq> Null \<Longrightarrow> v \<noteq> Undefined \<Longrightarrow> pg_param p v \<noteq> None"
  by (cases v) (simp_all add: pg_param_def)

lemma get_prop_Inr_defined: "get_prop v k = Inr n \<Longrightarrow> v \<noteq> Null \<and> v \<noteq> Undefined"
  by (cases v) auto

lemma record_failure_cases:
  "record_failure env j e s = s \<or>
   (\<exists>m. record_failure env j e s = update_failed (Some m) (w_clock env) (job_id j) s)"
  by (cases "fail_query_fails env") (auto simp: record_failure_def)

lemma process_phase_cases:
  "fst (process_phase env j s) = s \<or>
   (\<exists>m. fst (process_phase env j s) = update_failed (Some m) (w_clock env) (job_id j) s) \<or>
   (\<exists>res. res \<noteq> None \<and>
      fst (process_phase env j s) = update_completed res (w_clock env) (job_id j) s)"
proof (cases "build_request (w_platform env) j")
  case (Inl e)
  then have "fst (process_phase env j s) = record_failure env j e s"
    by (simp add: process_phase_def)
  with record_failure_cases [of env j e s] show ?thesis by auto
next
  case (Inr req)
  show ?thesis
  proof (cases "outcome (worker_loop (w_platform env) (w_upstream env req) 0)")
    case Never
    with Inr show ?thesis by (simp add: process_phase_def)
  next
    case (Threw e)
    with Inr have "fst (process_phase env j s) = record_failure env j e s"
      by (simp add: process_phase_def)
    with record_failure_cases [of env j e s] show ?thesis by auto
  next
    case (Got v)
    show ?thesis
    proof (cases "get_prop v (lit ''length'')")
      case (Inl e)
      with Inr Got have "fst (process_phase env j s) = record_failure env j e s"
        by (simp add: process_phase_def)
      with record_failure_cases [of env j e s] show ?thesis by auto
    next
      case len: (Inr n)
      then have v: "pg_param (w_platform env) v \<noteq> None"
        using get_prop_Inr_defined pg_param_defined by blast
      show ?thesis
      proof (cases "stringifies n")
        case False
        with Inr Got len have "fst (process_phase env j s) = record_failure env j cannot_convert s"
          by (simp add: process_phase_def)
        with record_failure_cases [of env j cannot_convert s] show ?thesis by auto
      next
        case True
        show ?thesis
        proof (cases "complete_query_error env")
          case None
          with Inr Got len True have "fst (process_phase env j s) =
              update_completed (pg_param (w_platform env) v) (w_clock env) (job_id j) s"
            by (simp add: process_phase_def)
          with v show ?thesis by blast
        next
          case (Some e)
          with Inr Got len True have "fst (process_phase env j s) = record_failure env j e s"
            by (simp add: process_phase_def)
          with record_failure_cases [of env j e s] show ?thesis by auto
        qed
      qed
    qed
  qed
qed

lemma cleanup_rows:
  "fst (cleanupOldJobs f now s) = s \<or>
   fst (cleanupOldJobs f now s) =
     s\<lparr>rows := filter (\<lambda>j. \<not> delete_where (sixHoursAgo now) j) (rows s)\<rparr>"
  by (simp add: cleanupOldJobs_def)

section \<open>The invariant\<close>

lemma sys_ok_initial: "sys_ok initial"
  by (simp add: sys_ok_def store_ok_def initial_def)

lemma sys_ok_Submit:
  assumes "sys_ok sys"
  shows "sys_ok (apply_event (Submit f now body) sys)"
proof -
  let ?s = "table sys" and ?s' = "snd (post_jobs f now body (table sys))"
  from assms have ok: "store_ok ?s" and d: "distinct (map job_id (in_flight sys))"
    and fl: "\<forall>x \<in> set (in_flight sys). \<exists>j \<in> set (rows ?s). job_id j = job_id x \<and> status j = Processing"
    by (simp_all add: sys_ok_def)
  from post_jobs_table [of f now body ?s]
  have "store_ok ?s' \<and> set (rows ?s) \<subseteq> set (rows ?s')"
  proof
    assume "?s' = ?s" with ok show ?thesis by simp
  next
    assume "\<exists>t inp. ?s' = snd (insert_job t inp now ?s)"
    then obtain t inp where e: "?s' = snd (insert_job t inp now ?s)" by blast
    from store_ok_insert [OF ok, of t inp now] show ?thesis
      unfolding e by (auto simp: rows_insert_job)
  qed
  then have "store_ok ?s'" and sub: "set (rows ?s) \<subseteq> set (rows ?s')" by blast+
  moreover from fl sub
  have "\<forall>x \<in> set (in_flight sys). \<exists>j \<in> set (rows ?s'). job_id j = job_id x \<and> status j = Processing"
    by blast
  ultimately show ?thesis using d by (simp add: sys_ok_def)
qed

lemma sys_ok_Sweep:
  assumes "sys_ok sys"
  shows "sys_ok (apply_event (Sweep f now) sys)"
proof -
  let ?s = "table sys" and ?s' = "fst (cleanupOldJobs f now (table sys))"
  from assms have ok: "store_ok ?s" and d: "distinct (map job_id (in_flight sys))"
    and fl: "\<forall>x \<in> set (in_flight sys). \<exists>j \<in> set (rows ?s). job_id j = job_id x \<and> status j = Processing"
    by (simp_all add: sys_ok_def)
  from cleanup_rows [of f now ?s]
  have "store_ok ?s' \<and> (\<forall>j \<in> set (rows ?s). status j = Processing \<longrightarrow> j \<in> set (rows ?s'))"
  proof
    assume "?s' = ?s" with ok show ?thesis by simp
  next
    assume e: "?s' = ?s\<lparr>rows := filter (\<lambda>j. \<not> delete_where (sixHoursAgo now) j) (rows ?s)\<rparr>"
    from ok have "store_ok ?s'"
      unfolding e store_ok_def by (simp add: distinct_map_filter)
    moreover have "\<forall>j \<in> set (rows ?s). status j = Processing \<longrightarrow> j \<in> set (rows ?s')"
      unfolding e by (auto simp: delete_where_def)
    ultimately show ?thesis by blast
  qed
  then have "store_ok ?s'"
    and keep: "\<forall>j \<in> set (rows ?s). status j = Processing \<longrightarrow> j \<in> set (rows ?s')" by blast+
  moreover from fl keep
  have "\<forall>x \<in> set (in_flight sys). \<exists>j \<in> set (rows ?s'). job_id j = job_id x \<and> status j = Processing"
    by blast
  ultimately show ?thesis using d by (simp add: sys_ok_def)
qed


lemma sys_ok_Claim:
  assumes "sys_ok sys"
  shows "sys_ok (apply_event (Claim env) sys)"
proof -
  let ?s = "table sys"
  from assms have ok: "store_ok ?s" and d: "distinct (map job_id (in_flight sys))"
    and fl: "\<forall>x \<in> set (in_flight sys). \<exists>j \<in> set (rows ?s). job_id j = job_id x \<and> status j = Processing"
    by (simp_all add: sys_ok_def)
  from ok have dr: "distinct (map job_id (rows ?s))" by (simp add: store_ok_def)
  from claim_phase_cases [of env ?s] show ?thesis
  proof
    assume "claim_phase env ?s = (None, ?s)"
    with assms show ?thesis by simp
  next
    assume "\<exists>j. claim_phase env ?s = (Some j, update_processing (job_id j) ?s) \<and>
                j \<in> set (rows ?s) \<and> status j = Pending"
    then obtain j where c: "claim_phase env ?s = (Some j, update_processing (job_id j) ?s)"
      and j: "j \<in> set (rows ?s)" and p: "status j = Pending" by blast
    let ?g = "\<lambda>k. k\<lparr>status := Processing\<rparr>"
    let ?s' = "update_processing (job_id j) ?s"
    have r: "rows ?s' = update_where_id (job_id j) ?g (rows ?s)" by (rule rows_update_processing)
    have 1: "store_ok ?s'"
    proof (rule store_ok_update [OF ok r])
      show "next_id ?s' = next_id ?s" by simp
      show "\<And>k. job_id (?g k) = job_id k" by simp
      fix k assume k: "k \<in> set (rows ?s)" and e: "job_id k = job_id j"
      from same_id_same_row [OF dr j k e] have "k = j" .
      moreover from ok j have "row_ok j" by (simp add: store_ok_def)
      ultimately show "row_ok (?g k)" using p by (simp add: row_ok_def)
    qed
    have 2: "job_id j \<notin> job_id ` set (in_flight sys)"
    proof
      assume "job_id j \<in> job_id ` set (in_flight sys)"
      then obtain x where "x \<in> set (in_flight sys)" and "job_id x = job_id j" by auto
      with fl obtain k where k: "k \<in> set (rows ?s)" and e: "job_id k = job_id j"
        and "status k = Processing" by metis
      moreover from same_id_same_row [OF dr j k e] have "k = j" .
      ultimately show False using p by simp
    qed
    have 3: "\<forall>x \<in> set (j # in_flight sys).
               \<exists>k \<in> set (rows ?s'). job_id k = job_id x \<and> status k = Processing"
    proof
      fix x assume "x \<in> set (j # in_flight sys)"
      then obtain k where k: "k \<in> set (rows ?s)" and e: "job_id k = job_id x"
        and st: "k = j \<or> status k = Processing"
        using fl j by (cases "x = j") auto
      let ?k' = "if job_id k = job_id j then ?g k else k"
      have "?k' \<in> set (rows ?s')" unfolding r using k by (rule update_where_id_image)
      moreover have "job_id ?k' = job_id x" using e by simp
      moreover have "status ?k' = Processing" using st by auto
      ultimately show "\<exists>k \<in> set (rows ?s'). job_id k = job_id x \<and> status k = Processing"
        by blast
    qed
    from 1 2 3 d c show ?thesis by (simp add: sys_ok_def)
  qed
qed

lemma find_id_Some:
  "find (\<lambda>j. job_id j = i) js = Some j \<Longrightarrow> j \<in> set js \<and> job_id j = i"
  by (auto simp: find_Some_iff)

lemma sys_ok_Finish:
  assumes "sys_ok sys"
  shows "sys_ok (apply_event (Finish i env) sys)"
proof (cases "find (\<lambda>j. job_id j = i) (in_flight sys)")
  case None
  with assms show ?thesis by simp
next
  case (Some j)
  let ?s = "table sys"
  from find_id_Some [OF Some] have jf: "j \<in> set (in_flight sys)" and ji: "job_id j = i" by blast+
  from assms have ok: "store_ok ?s" and d: "distinct (map job_id (in_flight sys))"
    and fl: "\<forall>x \<in> set (in_flight sys). \<exists>k \<in> set (rows ?s). job_id k = job_id x \<and> status k = Processing"
    by (simp_all add: sys_ok_def)
  from ok have dr: "distinct (map job_id (rows ?s))" by (simp add: store_ok_def)
  from fl jf ji obtain r where r: "r \<in> set (rows ?s)" and ri: "job_id r = i"
    and rp: "status r = Processing" by metis
  from ok r have rok: "row_ok r" by (simp add: store_ok_def)
  obtain s' returned where pp: "process_phase env j ?s = (s', returned)" by (cases "process_phase env j ?s")
  show ?thesis
  proof (cases returned)
    case False
    with Some pp assms show ?thesis by simp
  next
    case True
    let ?F = "filter (\<lambda>k. job_id k \<noteq> i) (in_flight sys)"
    from Some pp True have ev: "apply_event (Finish i env) sys = \<lparr>table = s', in_flight = ?F\<rparr>"
      by simp
    have dF: "distinct (map job_id ?F)" using d by (rule distinct_map_filter)
    have "\<exists>g. rows s' = update_where_id i g (rows ?s) \<and> next_id s' = next_id ?s \<and>
              (\<forall>k. job_id (g k) = job_id k) \<and> row_ok (g r)"
    proof -
      from process_phase_cases [of env j ?s] pp ji
      consider "s' = ?s"
        | m where "s' = update_failed (Some m) (w_clock env) i ?s"
        | res where "res \<noteq> None" and "s' = update_completed res (w_clock env) i ?s"
        by auto
      then show ?thesis
      proof cases
        case 1
        have "rows ?s = update_where_id i (\<lambda>k. k) (rows ?s)"
          by (simp add: update_where_id_def)
        with 1 rok show ?thesis by (intro exI [of _ "\<lambda>k. k"]) simp
      next
        case (2 m)
        let ?g = "\<lambda>k. k\<lparr>status := Failed, error := Some m, completed_at := Some (w_clock env)\<rparr>"
        from rok rp have "row_ok (?g r)" by (simp add: row_ok_def)
        with 2 show ?thesis
          by (intro exI [of _ ?g]) (simp add: rows_update_failed)
      next
        case (3 res)
        let ?g = "\<lambda>k. k\<lparr>status := Completed, result_data := res, completed_at := Some (w_clock env)\<rparr>"
        from rok rp 3(1) have "row_ok (?g r)" by (simp add: row_ok_def)
        with 3 show ?thesis
          by (intro exI [of _ ?g]) (simp add: rows_update_completed)
      qed
    qed
    then obtain g where rs: "rows s' = update_where_id i g (rows ?s)"
      and n: "next_id s' = next_id ?s" and gid: "\<And>k. job_id (g k) = job_id k"
      and gr: "row_ok (g r)" by blast
    have 1: "store_ok s'"
    proof (rule store_ok_update [OF ok rs n gid])
      fix k assume k: "k \<in> set (rows ?s)" and e: "job_id k = i"
      from same_id_same_row [OF dr r k] e ri have "k = r" by simp
      with gr show "row_ok (g k)" by simp
    qed
    have 2: "\<forall>x \<in> set ?F. \<exists>k \<in> set (rows s'). job_id k = job_id x \<and> status k = Processing"
    proof
      fix x assume "x \<in> set ?F"
      then have x: "x \<in> set (in_flight sys)" and xi: "job_id x \<noteq> i" by auto
      with fl obtain k where k: "k \<in> set (rows ?s)" and e: "job_id k = job_id x"
        and st: "status k = Processing" by metis
      from update_where_id_image [OF k, of i g] e xi have "k \<in> set (rows s')"
        unfolding rs by simp
      with e st show "\<exists>k \<in> set (rows s'). job_id k = job_id x \<and> status k = Processing"
        by blast
    qed
    from 1 2 dF show ?thesis unfolding ev by (simp add: sys_ok_def)
  qed
qed

lemma sys_ok_step: "sys_ok sys \<Longrightarrow> sys_ok (apply_event e sys)"
  by (cases e) (simp_all only: sys_ok_Submit sys_ok_Claim sys_ok_Finish sys_ok_Sweep)

lemma sys_ok_run: "sys_ok sys \<Longrightarrow> sys_ok (run es sys)"
  by (induction es arbitrary: sys) (simp_all add: sys_ok_step del: apply_event.simps)

lemma sys_ok_reachable: "sys_ok (run es initial)"
  by (rule sys_ok_run [OF sys_ok_initial])

text \<open>With claiming transactions that do not overlap, no two runs hold the same job.\<close>

lemma in_flight_distinct: "distinct (map job_id (in_flight (run es initial)))"
  using sys_ok_reachable [of es] by (simp add: sys_ok_def)


lemma step_status:
  assumes ok: "sys_ok sys" and j: "j \<in> set (rows (table sys))"
      and j': "j' \<in> set (rows (table (apply_event e sys)))" and e: "job_id j' = job_id j"
  shows "status j' = status j \<or> (status j = Pending \<and> status j' = Processing) \<or>
         (status j = Processing \<and> (status j' = Completed \<or> status j' = Failed))"
proof -
  let ?s = "table sys"
  from ok have sok: "store_ok ?s"
    and fl: "\<forall>x \<in> set (in_flight sys). \<exists>k \<in> set (rows ?s). job_id k = job_id x \<and> status k = Processing"
    by (simp_all add: sys_ok_def)
  from sok have dr: "distinct (map job_id (rows ?s))" by (simp add: store_ok_def)
  have same: "j' \<in> set (rows ?s) \<Longrightarrow> ?thesis"
    using same_id_same_row [OF dr j _ e] by blast
  show ?thesis
  proof (cases e)
    case (Submit f now body)
    then have t: "table (apply_event e sys) = snd (post_jobs f now body ?s)" by simp
    from post_jobs_table [of f now body ?s] show ?thesis
    proof
      assume "snd (post_jobs f now body ?s) = ?s"
      with t j' same show ?thesis by simp
    next
      assume "\<exists>t inp. snd (post_jobs f now body ?s) = snd (insert_job t inp now ?s)"
      then obtain ty inp where "snd (post_jobs f now body ?s) = snd (insert_job ty inp now ?s)"
        by blast
      with t j' have "j' \<in> set (rows ?s) \<or> job_id j' = next_id ?s"
        by (auto simp: rows_insert_job)
      moreover from sok j have "job_id j < next_id ?s" by (simp add: store_ok_def)
      ultimately show ?thesis using e same by auto
    qed
  next
    case (Sweep f now)
    then have "table (apply_event e sys) = fst (cleanupOldJobs f now ?s)" by simp
    with cleanup_rows [of f now ?s] j' have "j' \<in> set (rows ?s)" by auto
    then show ?thesis by (rule same)
  next
    case (Claim env)
    from claim_phase_cases [of env ?s] show ?thesis
    proof
      assume "claim_phase env ?s = (None, ?s)"
      with Claim j' same show ?thesis by simp
    next
      assume "\<exists>x. claim_phase env ?s = (Some x, update_processing (job_id x) ?s) \<and>
                x \<in> set (rows ?s) \<and> status x = Pending"
      then obtain x where c: "claim_phase env ?s = (Some x, update_processing (job_id x) ?s)"
        and x: "x \<in> set (rows ?s)" and p: "status x = Pending" by blast
      from Claim c j' have "j' \<in> set (update_where_id (job_id x) (\<lambda>k. k\<lparr>status := Processing\<rparr>) (rows ?s))"
        by (simp add: rows_update_processing)
      from update_where_id_same_id [OF dr j this e]
      have eq: "j' = (if job_id j = job_id x then j\<lparr>status := Processing\<rparr> else j)" by simp
      show ?thesis
      proof (cases "job_id j = job_id x")
        case True
        from same_id_same_row [OF dr x j True] p eq True show ?thesis by simp
      next
        case False
        with eq show ?thesis by simp
      qed
    qed
  next
    case (Finish i env)
    show ?thesis
    proof (cases "find (\<lambda>k. job_id k = i) (in_flight sys)")
      case None
      with Finish j' same show ?thesis by simp
    next
      case (Some x)
      from find_id_Some [OF Some] have xf: "x \<in> set (in_flight sys)" and xi: "job_id x = i" by blast+
      from fl xf xi obtain r where r: "r \<in> set (rows ?s)" and ri: "job_id r = i"
        and rp: "status r = Processing" by metis
      obtain s' returned where pp: "process_phase env x ?s = (s', returned)"
        by (cases "process_phase env x ?s")
      show ?thesis
      proof (cases returned)
        case False
        with Finish Some pp j' same show ?thesis by simp
      next
        case True
        with Finish Some pp have t: "table (apply_event e sys) = s'" by simp
        from process_phase_cases [of env x ?s] pp xi
        consider "s' = ?s"
          | m where "s' = update_failed (Some m) (w_clock env) i ?s"
          | res where "s' = update_completed res (w_clock env) i ?s"
          by auto
        then show ?thesis
        proof cases
          case 1
          with t j' same show ?thesis by simp
        next
          case (2 m)
          let ?g = "\<lambda>k. k\<lparr>status := Failed, error := Some m, completed_at := Some (w_clock env)\<rparr>"
          from 2 t j' have "j' \<in> set (update_where_id i ?g (rows ?s))"
            by (simp add: rows_update_failed)
          from update_where_id_same_id [OF dr j this e]
          have eq: "j' = (if job_id j = i then ?g j else j)" by simp
          show ?thesis
          proof (cases "job_id j = i")
            case True
            from same_id_same_row [OF dr r j] True ri have "j = r" by simp
            with rp eq True show ?thesis by simp
          next
            case False
            with eq show ?thesis by simp
          qed
        next
          case (3 res)
          let ?g = "\<lambda>k. k\<lparr>status := Completed, result_data := res, completed_at := Some (w_clock env)\<rparr>"
          from 3 t j' have "j' \<in> set (update_where_id i ?g (rows ?s))"
            by (simp add: rows_update_completed)
          from update_where_id_same_id [OF dr j this e]
          have eq: "j' = (if job_id j = i then ?g j else j)" by simp
          show ?thesis
          proof (cases "job_id j = i")
            case True
            from same_id_same_row [OF dr r j] True ri have "j = r" by simp
            with rp eq True show ?thesis by simp
          next
            case False
            with eq show ?thesis by simp
          qed
        qed
      qed
    qed
  qed
qed

section \<open>Example runs\<close>

lemma initial_table: "initial = \<lparr>table = empty_store, in_flight = []\<rparr>"
  by (simp add: initial_def empty_store_def)

lemma hello_submit: "post_jobs False 500 hello_body empty_store = (Created 1 Pending 500, one_pending)"
  by (simp add: post_jobs_def hello_body_def empty_store_def known_job_types_def insert_job_def
      Let_def hello_messages_def one_pending_def hello_job_def)

lemma hello_select: "select_next_pending {} one_pending = Some hello_job"
  by (simp add: select_next_pending_def one_pending_def hello_job_def)

lemma hello_claim:
  "\<not> claim_tx_fails env \<Longrightarrow> w_locked env = {} \<Longrightarrow>
   claim_phase env one_pending = (Some hello_job, claimed_store)"
  by (simp add: claim_phase_def hello_select)
     (simp add: update_processing_def one_pending_def claimed_store_def hello_job_def)

lemma flaky_finish: "process_phase flaky_env hello_job claimed_store = (done_store, True)"
proof -
  have p: "w_platform flaky_env = node" by (simp add: flaky_env_def)
  have "outcome (worker_loop node (w_upstream flaky_env hello_request) 0) =
          Got (Str (lit ''An evaluation plan''))"
    using worker_loop_third [of node "w_upstream flaky_env hello_request", OF flaky_rounds(1) flaky_rounds(2)]
    by (simp add: flaky_rounds)
  from process_phase_Got [of flaky_env hello_job hello_request, unfolded p, OF node_hello_request this,
         of "Num 18" claimed_store]
  have "process_phase flaky_env hello_job claimed_store =
     (update_completed (Some (lit ''An evaluation plan'')) 7000000 1 claimed_store, True)"
    by (simp add: flaky_env_def pg_param_def hello_job_def)
  then show ?thesis
    by (simp add: update_completed_def claimed_store_def done_store_def hello_job_def)
qed

lemma down_finish: "process_phase down_env hello_job claimed_store = (failed_store, True)"
proof -
  have p: "w_platform down_env = node" by (simp add: down_env_def flaky_env_def)
  have "outcome (worker_loop node (w_upstream down_env hello_request) 0) =
          Threw (api_error 503 (lit ''Service Unavailable''))"
    using worker_loop_third [of node "w_upstream down_env hello_request", OF down_rounds down_rounds]
    by (simp add: down_rounds)
  from process_phase_Threw [of down_env hello_job hello_request, unfolded p, OF node_hello_request this]
  have "process_phase down_env hello_job claimed_store =
     (update_failed (Some (message (api_error 503 (lit ''Service Unavailable'')))) 7000000 1 claimed_store, True)"
    by (simp add: record_failure_def down_env_def flaky_env_def hello_job_def)
  then show ?thesis
    by (simp add: update_failed_def claimed_store_def failed_store_def hello_job_def)
qed

lemma hello_run_flaky: "run (hello_events flaky_env) initial = \<lparr>table = done_store, in_flight = []\<rparr>"
proof -
  have c: "claim_phase flaky_env one_pending = (Some hello_job, claimed_store)"
    by (rule hello_claim) (simp_all add: flaky_env_def)
  have i: "job_id hello_job = 1" by (simp add: hello_job_def)
  show ?thesis
    by (simp add: hello_events_def initial_table hello_submit c i flaky_finish)
qed

lemma hello_run_down: "run (hello_events down_env) initial = \<lparr>table = failed_store, in_flight = []\<rparr>"
proof -
  have c: "claim_phase down_env one_pending = (Some hello_job, claimed_store)"
    by (rule hello_claim) (simp_all add: down_env_def flaky_env_def)
  have i: "job_id hello_job = 1" by (simp add: hello_job_def)
  show ?thesis
    by (simp add: hello_events_def initial_table hello_submit c i down_finish)
qed

lemma hello_run_claimed:
  "run [Submit False 500 hello_body, Claim flaky_env] initial =
     \<lparr>table = claimed_store, in_flight = [hello_job]\<rparr>"
proof -
  have c: "claim_phase flaky_env one_pending = (Some hello_job, claimed_store)"
    by (rule hello_claim) (simp_all add: flaky_env_def)
  show ?thesis by (simp add: initial_table hello_submit c)
qed

lemma hello_finish_event:
  "apply_event (Finish 1 flaky_env) \<lparr>table = claimed_store, in_flight = [hello_job]\<rparr> =
     \<lparr>table = done_store, in_flight = []\<rparr>"
  by (simp add: flaky_finish) (simp add: hello_job_def)

section \<open>Terminal jobs\<close>

text \<open>
  C2: after any sequence of requests, claims, recordings and sweeps, from the empty
  table, a completed job has a result and no error, a failed job has an error and no
  result, and a pending or processing job has neither.
\<close>

theorem terminal_job_has_one_outcome:
  "j \<in> set (rows (table (run evs initial))) \<Longrightarrow>
     (status j = Completed \<longrightarrow> result_data j \<noteq> None \<and> error j = None) \<and>
     (status j = Failed \<longrightarrow> error j \<noteq> None \<and> result_data j = None) \<and>
     (status j = Pending \<or> status j = Processing \<longrightarrow> result_data j = None \<and> error j = None)"
proof -
  assume "j \<in> set (rows (table (run evs initial)))"
  with sys_ok_reachable [of evs] have "row_ok j" by (simp add: sys_ok_def store_ok_def)
  then show ?thesis by (cases "status j") (simp_all add: row_ok_def)
qed

theorem terminal_job_has_one_outcome_witness:
  "run (hello_events flaky_env) initial = \<lparr>table = done_store, in_flight = []\<rparr> \<and>
   status (hd (rows done_store)) = Completed \<and>
   result_data (hd (rows done_store)) \<noteq> None \<and> error (hd (rows done_store)) = None \<and>
   run (hello_events down_env) initial = \<lparr>table = failed_store, in_flight = []\<rparr> \<and>
   status (hd (rows failed_store)) = Failed \<and>
   error (hd (rows failed_store)) \<noteq> None \<and> result_data (hd (rows failed_store)) = None"
proof -
  have a: "hd (rows done_store) \<in> set (rows (table (run (hello_events flaky_env) initial)))"
    by (simp add: hello_run_flaky) (simp add: done_store_def)
  have b: "hd (rows failed_store) \<in> set (rows (table (run (hello_events down_env) initial)))"
    by (simp add: hello_run_down) (simp add: failed_store_def)
  have s: "status (hd (rows done_store)) = Completed" "status (hd (rows failed_store)) = Failed"
    by (simp_all add: done_store_def failed_store_def)
  from terminal_job_has_one_outcome [OF a] terminal_job_has_one_outcome [OF b] s hello_run_flaky hello_run_down
  show ?thesis by simp
qed

section \<open>Transitions\<close>

text \<open>
  C3, as stated, fails: the two final UPDATE statements carry no condition on the
  status. Applied to a pending job the failing UPDATE makes it failed, and applied to a
  failed job the completing UPDATE makes it completed, leaving its error in place.
\<close>

theorem update_outside_processing_counterexample:
  "status (rows queue_store ! 1) = Pending \<and> job_id (rows queue_store ! 1) = 2 \<and>
   rows (update_failed (Some (lit ''boom'')) 9 2 queue_store) ! 1 =
     (rows queue_store ! 1)\<lparr>status := Failed, error := Some (lit ''boom''), completed_at := Some 9\<rparr> \<and>
   status (rows sweep_store ! 2) = Failed \<and> job_id (rows sweep_store ! 2) = 3 \<and>
   rows (update_completed (Some (lit ''late'')) 9 3 sweep_store) ! 2 =
     (rows sweep_store ! 2)\<lparr>status := Completed, result_data := Some (lit ''late''),
                              completed_at := Some 9\<rparr> \<and>
   update_completed (Some (lit ''late'')) 9 3 sweep_store \<noteq> sweep_store"
proof -
  have 1: "rows (update_completed (Some (lit ''late'')) 9 3 sweep_store) ! 2 =
     (rows sweep_store ! 2)\<lparr>status := Completed, result_data := Some (lit ''late''),
                              completed_at := Some 9\<rparr>"
    by (simp add: update_completed_def sweep_store_def)
  have "status (rows (update_completed (Some (lit ''late'')) 9 3 sweep_store) ! 2) \<noteq>
        status (rows sweep_store ! 2)"
    unfolding 1 by (simp add: sweep_store_def)
  then have 2: "update_completed (Some (lit ''late'')) 9 3 sweep_store \<noteq> sweep_store" by auto
  have 3: "rows (update_failed (Some (lit ''boom'')) 9 2 queue_store) ! 1 =
     (rows queue_store ! 1)\<lparr>status := Failed, error := Some (lit ''boom''), completed_at := Some 9\<rparr>"
    by (simp add: update_failed_def queue_store_def hello_job_def)
  have 4: "status (rows queue_store ! 1) = Pending" "job_id (rows queue_store ! 1) = 2"
    "status (rows sweep_store ! 2) = Failed" "job_id (rows sweep_store ! 2) = 3"
    by (simp_all add: queue_store_def sweep_store_def hello_job_def)
  from 1 2 3 4 show ?thesis by simp
qed

text \<open>
  C3, amended: the completing and the failing UPDATE never reject. With an id that is
  not in the table they change nothing; with an id that is, they overwrite the status,
  the result or error and \<^verbatim>\<open>completed_at\<close> of that row whatever its status. The worker
  issues them for the job its own run has claimed: over any sequence of events, a job
  whose status becomes completed or failed was in processing before.
\<close>

theorem updates_by_id_are_unconditional:
  "(i \<notin> job_id ` set (rows s) \<longrightarrow>
      update_completed res now i s = s \<and> update_failed err now i s = s)
   \<and> (\<forall>j \<in> set (rows s). job_id j = i \<longrightarrow>
         j\<lparr>status := Completed, result_data := res, completed_at := Some now\<rparr>
           \<in> set (rows (update_completed res now i s)) \<and>
         j\<lparr>status := Failed, error := err, completed_at := Some now\<rparr>
           \<in> set (rows (update_failed err now i s)))
   \<and> (\<forall>evs e j j'.
         j \<in> set (rows (table (run evs initial))) \<and>
         j' \<in> set (rows (table (apply_event e (run evs initial)))) \<and>
         job_id j' = job_id j \<and> (status j' = Completed \<or> status j' = Failed) \<and>
         status j \<noteq> status j' \<longrightarrow> status j = Processing)"
proof (intro conjI impI ballI allI)
  assume a: "i \<notin> job_id ` set (rows s)"
  have "rows (update_completed res now i s) = rows s"
    unfolding rows_update_completed using a by (rule update_where_id_absent)
  then show "update_completed res now i s = s"
    by (simp add: update_completed_def)
  have "rows (update_failed err now i s) = rows s"
    unfolding rows_update_failed using a by (rule update_where_id_absent)
  then show "update_failed err now i s = s"
    by (simp add: update_failed_def)
next
  fix j assume j: "j \<in> set (rows s)" and i: "job_id j = i"
  from update_where_id_image [OF j, of i] i
  show "j\<lparr>status := Completed, result_data := res, completed_at := Some now\<rparr>
           \<in> set (rows (update_completed res now i s))"
    unfolding rows_update_completed by (metis (lifting))
  from update_where_id_image [OF j, of i] i
  show "j\<lparr>status := Failed, error := err, completed_at := Some now\<rparr>
           \<in> set (rows (update_failed err now i s))"
    unfolding rows_update_failed by (metis (lifting))
next
  fix evs e j j'
  assume a: "j \<in> set (rows (table (run evs initial))) \<and>
         j' \<in> set (rows (table (apply_event e (run evs initial)))) \<and>
         job_id j' = job_id j \<and> (status j' = Completed \<or> status j' = Failed) \<and>
         status j \<noteq> status j'"
  then have "status j' = status j \<or> (status j = Pending \<and> status j' = Processing) \<or>
         (status j = Processing \<and> (status j' = Completed \<or> status j' = Failed))"
    using step_status [OF sys_ok_reachable, of j evs j' e] by blast
  with a show "status j = Processing" by auto
qed

theorem updates_by_id_are_unconditional_witness:
  "update_completed (Some (lit ''late'')) 9 99 sweep_store = sweep_store \<and>
   update_failed (Some (lit ''boom'')) 9 99 sweep_store = sweep_store \<and>
   (rows sweep_store ! 2)\<lparr>status := Completed, result_data := Some (lit ''late''),
                            completed_at := Some 9\<rparr>
     \<in> set (rows (update_completed (Some (lit ''late'')) 9 3 sweep_store)) \<and>
   status (hd (rows done_store)) = Completed \<and>
   status (hd (rows claimed_store)) = Processing"
proof -
  have a: "99 \<notin> job_id ` set (rows sweep_store)" by (simp add: sweep_store_def)
  have b: "rows sweep_store ! 2 \<in> set (rows sweep_store)" "job_id (rows sweep_store ! 2) = 3"
    by (simp_all add: sweep_store_def)
  have c: "hd (rows claimed_store) \<in>
             set (rows (table (run [Submit False 500 hello_body, Claim flaky_env] initial)))"
    unfolding hello_run_claimed by (simp add: claimed_store_def)
  have d: "hd (rows done_store) \<in>
             set (rows (table (apply_event (Finish 1 flaky_env)
                (run [Submit False 500 hello_body, Claim flaky_env] initial))))"
    unfolding hello_run_claimed hello_finish_event by (simp add: done_store_def)
  have e: "job_id (hd (rows done_store)) = job_id (hd (rows claimed_store))"
    "status (hd (rows done_store)) = Completed"
    "status (hd (rows claimed_store)) \<noteq> status (hd (rows done_store))"
    by (simp_all add: done_store_def claimed_store_def)
  note t = updates_by_id_are_unconditional [of 99 sweep_store "Some (lit ''late'')" 9 "Some (lit ''boom'')"]
  note u = updates_by_id_are_unconditional [of 3 sweep_store "Some (lit ''late'')" 9 "Some (lit ''boom'')"]
  from t a have 1: "update_completed (Some (lit ''late'')) 9 99 sweep_store = sweep_store \<and>
   update_failed (Some (lit ''boom'')) 9 99 sweep_store = sweep_store" by blast
  from u b have 2: "(rows sweep_store ! 2)\<lparr>status := Completed, result_data := Some (lit ''late''),
                            completed_at := Some 9\<rparr>
     \<in> set (rows (update_completed (Some (lit ''late'')) 9 3 sweep_store))" by blast
  from u c d e have 3: "status (hd (rows claimed_store)) = Processing" by blast
  from 1 2 3 e(2) show ?thesis by simp
qed

end
